theory Spec2Isabelle
  imports Complex_Main "HOL-Library.Word" "HOL-Library.Signed_Division"
begin

unbundle bit_operations_syntax

section \<open>The data of \<open>qam_gmi_mex.c\<close>\<close>

text \<open>
  The C types are read as follows. A \<open>double\<close> is a real number and a
  \<open>double complex\<close> a complex number: rounding, overflow to infinity and NaN are
  not part of this development, which follows the arithmetic the source writes down.
  An \<open>int\<close> and an \<open>unsigned int\<close> are 32-bit words; \<open>sint\<close> reads the first,
  \<open>unat\<close> the second. A pointer to an array of \<open>double complex\<close> is the function
  from the element offset to the value stored there, so that \<open>C[i]\<close> is
  \<open>C i\<close> whatever \<open>i\<close> is; the length travels separately, as in the source.
\<close>

type_synonym c_int = "32 word"
type_synonym c_uint = "32 word"
type_synonym c_double_complex_ptr = "int \<Rightarrow> complex"
type_synonym c_double_ptr = "int \<Rightarrow> real"

definition N_GH :: nat where
  "N_GH = 10"

text \<open>
  The Gauss-Hermite tables \<open>x\<close> and \<open>w\<close> of the source. They are called
  \<open>x_GH\<close> and \<open>w_GH\<close> here, since one-letter constants would capture the
  variables of every later statement.
\<close>

definition x_GH :: "real list" where
  "x_GH = [- 3.436159118837737603327,
           - 2.532731674232789796409,
           - 1.756683649299881773451,
           - 1.036610829789513654178,
           - 0.3429013272237046087892,
           0.3429013272237046087892,
           1.036610829789513654178,
           1.756683649299881773451,
           2.532731674232789796409,
           3.436159118837737603327]"

definition w_GH :: "real list" where
  "w_GH = [7.64043285523262062916 / 10 ^ 6,
           0.001343645746781232692202,
           0.0338743944554810631362,
           0.2401386110823146864165,
           0.6108626337353257987836,
           0.6108626337353257987836,
           0.2401386110823146864165,
           0.03387439445548106313617,
           0.001343645746781232692202,
           7.64043285523262062916 / 10 ^ 6]"

text \<open>
  A counting loop \<open>for (i = 0; i < n; i++) body\<close> that threads one accumulator:
  the body of iteration \<open>n\<close> runs on the result of the iterations before it.
  Every loop of the source has this shape, its counter running below a bound that
  the loop does not change.
\<close>

primrec for_loop :: "nat \<Rightarrow> (nat \<Rightarrow> 'a \<Rightarrow> 'a) \<Rightarrow> 'a \<Rightarrow> 'a" where
  "for_loop 0 body acc = acc"
| "for_loop (Suc n) body acc = body n (for_loop n body acc)"

section \<open>Symbol energy\<close>

text \<open>
  \<open>symbol_energy\<close>: the loop adds \<open>pow(cabs(C[i]),2.0)\<close> for \<open>i\<close> below \<open>M\<close>,
  then \<open>Es /= M\<close>. The loop does not run when \<open>M\<close> is not positive.
\<close>

definition symbol_energy :: "c_double_complex_ptr \<Rightarrow> c_int \<Rightarrow> real" where
  "symbol_energy C M =
     (let Es = for_loop (nat (sint M)) (\<lambda>i Es. Es + (cmod (C (int i))) ^ 2) 0;
          Es = Es / real_of_int (sint M)
      in Es)"

section \<open>Inserting a zero bit\<close>

text \<open>
  \<open>insert_zero\<close>, operator by operator. The constant \<open>1\<close> of the source is an
  \<open>int\<close>, so \<open>1<<(nb-k)\<close> and the mask built from it are signed shifts; they are
  taken in two's complement here, which is what C defines as long as the shifted
  value fits an \<open>int\<close>, that is for \<open>nb \<le> 30\<close>. A shift by the word size or more
  gives 0 in this model.
\<close>

definition insert_zero :: "c_uint \<Rightarrow> c_uint \<Rightarrow> c_uint \<Rightarrow> c_uint" where
  "insert_zero i k nb =
     (let left = push_bit 1 i AND push_bit (unat (k + 1)) (push_bit (unat (nb - k)) 1 - 1);
          right = i AND (push_bit (unat k) 1 - 1);
          b0 = left OR right
      in b0)"

section \<open>The two estimators\<close>

text \<open>
  Both estimators add up the same expression,
  \<open>exp(-(pow(cabs(d),2.0) - 2*s*creal((x[l1]+I*x[l2])*d))/pow(s,2.0))\<close>,
  for a difference \<open>d\<close> of two constellation points. It is written once here.
  \<open>pow(v,2.0)\<close> is the square of \<open>v\<close>, also for a negative \<open>v\<close>.
\<close>

definition gh_exp :: "real \<Rightarrow> nat \<Rightarrow> nat \<Rightarrow> complex \<Rightarrow> real" where
  "gh_exp s l1 l2 d =
     exp (- ((cmod d) ^ 2
             - 2 * s * Re ((complex_of_real (x_GH ! l1) + \<i> * complex_of_real (x_GH ! l2)) * d))
          / s ^ 2)"

text \<open>
  \<open>qam_eval_mi\<close>: four nested loops, then \<open>MI /= M*M_PI\<close> and
  \<open>MI += log2(M)\<close>. The innermost loop, which fills \<open>tmp\<close> for the symbol \<open>i\<close>
  and the node pair \<open>(l1, l2)\<close>, is \<open>mi_tmp\<close>.
\<close>

definition mi_tmp :: "c_double_complex_ptr \<Rightarrow> c_int \<Rightarrow> real \<Rightarrow> nat \<Rightarrow> nat \<Rightarrow> nat \<Rightarrow> real" where
  "mi_tmp C M s i l1 l2 =
     for_loop (nat (sint M)) (\<lambda>j tmp. tmp + gh_exp s l1 l2 (C (int j) - C (int i))) 0"

definition qam_eval_mi :: "c_double_complex_ptr \<Rightarrow> c_int \<Rightarrow> real \<Rightarrow> real" where
  "qam_eval_mi C M s =
     (let MI =
        for_loop (nat (sint M)) (\<lambda>i MI.
          for_loop N_GH (\<lambda>l1 MI.
            for_loop N_GH (\<lambda>l2 MI.
              let tmp = mi_tmp C M s i l1 l2
              in MI - w_GH ! l1 * w_GH ! l2 * log 2 tmp) MI) MI) 0;
          MI = MI / (real_of_int (sint M) * pi);
          MI = MI + log 2 (real_of_int (sint M))
      in MI)"

text \<open>
  The conversion of a \<open>double\<close> to an \<open>int\<close> drops the fraction (rounding
  towards zero) and keeps the low 32 bits in this model; C defines it only when
  the integer fits.
\<close>

definition double_to_int :: "real \<Rightarrow> c_int" where
  "double_to_int r = word_of_int (if 0 \<le> r then \<lfloor>r\<rfloor> else \<lceil>r\<rceil>)"

text \<open>
  The index \<open>insert_zero(i, k, m) + (b<<k)\<close> that \<open>qam_eval_gmi\<close> computes twice,
  as \<open>bi\<close> and as \<open>bj\<close>: the sum is unsigned and is stored in an \<open>int\<close>.
\<close>

definition gmi_index :: "nat \<Rightarrow> nat \<Rightarrow> nat \<Rightarrow> c_int \<Rightarrow> int" where
  "gmi_index i k b m =
     sint (insert_zero (word_of_nat i) (word_of_nat k) m + push_bit k (word_of_nat b))"

text \<open>
  \<open>qam_eval_gmi\<close>: \<open>m\<close> is \<open>log2(M)\<close> converted to \<open>int\<close>; \<open>M/2\<close> is the signed
  division of C, which rounds towards zero; the loop over \<open>b\<close> runs for 0 and 1.
  The two innermost loops, which fill \<open>tmp_num\<close> and \<open>tmp_den\<close>, are
  \<open>gmi_tmp_num\<close> and \<open>gmi_tmp_den\<close>.
\<close>

definition gmi_tmp_num ::
  "c_double_complex_ptr \<Rightarrow> c_int \<Rightarrow> real \<Rightarrow> int \<Rightarrow> nat \<Rightarrow> nat \<Rightarrow> real" where
  "gmi_tmp_num C M s bi l1 l2 =
     for_loop (nat (sint M)) (\<lambda>j tmp_num. tmp_num + gh_exp s l1 l2 (C bi - C (int j))) 0"

definition gmi_tmp_den ::
  "c_double_complex_ptr \<Rightarrow> c_int \<Rightarrow> real \<Rightarrow> nat \<Rightarrow> nat \<Rightarrow> c_int \<Rightarrow> int \<Rightarrow> nat \<Rightarrow> nat \<Rightarrow> real" where
  "gmi_tmp_den C M s k b m bi l1 l2 =
     for_loop (nat (sint M sdiv 2))
       (\<lambda>j tmp_den. let bj = gmi_index j k b m
                     in tmp_den + gh_exp s l1 l2 (C bi - C bj)) 0"

definition qam_eval_gmi :: "c_double_complex_ptr \<Rightarrow> c_int \<Rightarrow> real \<Rightarrow> real" where
  "qam_eval_gmi C M s =
     (let m = double_to_int (log 2 (real_of_int (sint M)));
          GMI =
        for_loop (nat (sint m)) (\<lambda>k GMI.
          for_loop 2 (\<lambda>b GMI.
            for_loop (nat (sint M sdiv 2)) (\<lambda>i GMI.
              let bi = gmi_index i k b m in
              for_loop N_GH (\<lambda>l1 GMI.
                for_loop N_GH (\<lambda>l2 GMI.
                  let tmp_num = gmi_tmp_num C M s bi l1 l2;
                      tmp_den = gmi_tmp_den C M s k b m bi l1 l2
                  in GMI - w_GH ! l1 * w_GH ! l2 * log 2 (tmp_num / tmp_den)) GMI) GMI) GMI) GMI) 0;
          GMI = GMI / (real_of_int (sint M) * pi);
          GMI = GMI + real_of_int (sint m)
      in GMI)"

section \<open>The gateway function\<close>

text \<open>
  The host's array type is not part of the repository. An \<open>mxArray\<close> is taken as
  what the gateway reads from it: its number of rows (\<open>mxGetM\<close>, a \<open>size_t\<close>) and
  the pointers to its real and to its complex data.
\<close>

record mxArray =
  mxGetM :: nat
  mxGetPr :: c_double_ptr
  mxGetComplexDoubles :: c_double_complex_ptr

text \<open>\<open>mexErrMsgIdAndTxt\<close> leaves the gateway with an identifier and a message.\<close>

datatype mex_error = MexErr string string

text \<open>The two output columns \<open>plhs[0]\<close> and \<open>plhs[1]\<close>, read through \<open>mi\<close> and \<open>gmi\<close>.\<close>

record mex_output =
  mi :: "real list"
  gmi :: "real list"

text \<open>
  To count the calls of the helper functions, a run of the gateway carries, beside
  the two output columns, the list \<open>calls\<close> of the helper calls made so far, each
  call of an estimator with the noise level it was given. The list is no variable
  of the program: an entry is added where the source calls \<open>symbol_energy\<close>,
  \<open>qam_eval_mi\<close> or \<open>qam_eval_gmi\<close>, and nothing reads it.
\<close>

datatype helper_call = Call_symbol_energy | Call_qam_eval_mi real | Call_qam_eval_gmi real

fun is_Call_symbol_energy :: "helper_call \<Rightarrow> bool" where
  "is_Call_symbol_energy Call_symbol_energy = True"
| "is_Call_symbol_energy (Call_qam_eval_mi sigma) = False"
| "is_Call_symbol_energy (Call_qam_eval_gmi sigma) = False"

record mex_run = mex_output +
  calls :: "helper_call list"

text \<open>
  The body of the loop over the SNR values, for the iteration \<open>i\<close>: \<open>sigma\<close> is
  private to the iteration, the two stores go to slot \<open>i\<close> of the outputs.
\<close>

definition snr_point ::
  "c_double_complex_ptr \<Rightarrow> nat \<Rightarrow> real \<Rightarrow> c_double_ptr \<Rightarrow> nat \<Rightarrow> mex_run \<Rightarrow> mex_run" where
  "snr_point C M Es snr i run =
     (let sigma = sqrt Es * 10 powr (- snr (int i) / 20);
          run = run\<lparr>mi := (mi run)[i := qam_eval_mi C (word_of_nat M) sigma],
                    calls := calls run @ [Call_qam_eval_mi sigma]\<rparr>;
          run = run\<lparr>gmi := (gmi run)[i := qam_eval_gmi C (word_of_nat M) sigma],
                    calls := calls run @ [Call_qam_eval_gmi sigma]\<rparr>
      in run)"

text \<open>
  \<open>#pragma omp parallel for\<close> hands the iterations to a team of threads. What is
  kept of it here is that the iterations are all executed, each one whole, in an
  order the program does not choose: \<open>sched\<close> is that order.
\<close>

definition omp_parallel_for :: "nat list \<Rightarrow> (nat \<Rightarrow> 'a \<Rightarrow> 'a) \<Rightarrow> 'a \<Rightarrow> 'a" where
  "omp_parallel_for sched body st = fold body sched st"

definition schedule_of :: "nat \<Rightarrow> nat list \<Rightarrow> bool" where
  "schedule_of N sched \<longleftrightarrow> distinct sched \<and> set sched = {..<N}"

text \<open>
  \<open>mexFunction\<close> under the schedule \<open>sched\<close>. The two checks come first; the sizes
  \<open>M\<close> and \<open>N\<close> are \<open>size_t\<close>, and \<open>M\<close> is converted to \<open>int\<close> where the helpers are
  called; \<open>mxCreateDoubleMatrix\<close> returns a column of zeros.
\<close>

definition mexFunction_sched ::
  "nat list \<Rightarrow> int \<Rightarrow> int \<Rightarrow> mxArray list \<Rightarrow> mex_error + mex_run" where
  "mexFunction_sched sched nlhs nrhs prhs =
     (if nrhs \<noteq> 2 then Inl (MexErr ''dsp-library:qam_gmi_mex:nrhs'' ''Two inputs required.'')
      else if nlhs > 2 then Inl (MexErr ''dsp-library:qam_gmi_mex:nlhs'' ''Max two outputs.'')
      else
        let M = mxGetM (prhs ! 0);
            N = mxGetM (prhs ! 1);
            snr = mxGetPr (prhs ! 1);
            C = mxGetComplexDoubles (prhs ! 0);
            run = \<lparr>mi = replicate N 0, gmi = replicate N 0, calls = []\<rparr>;
            Es = symbol_energy C (word_of_nat M);
            run = run\<lparr>calls := calls run @ [Call_symbol_energy]\<rparr>;
            run = omp_parallel_for sched (snr_point C M Es snr) run
        in Inr run)"

text \<open>The gateway as a sequential program runs the iterations in the order of the counter.\<close>

definition mexFunction :: "int \<Rightarrow> int \<Rightarrow> mxArray list \<Rightarrow> mex_error + mex_run" where
  "mexFunction nlhs nrhs prhs = mexFunction_sched [0..<mxGetM (prhs ! 1)] nlhs nrhs prhs"

section \<open>Calls that C defines\<close>

text \<open>
  The pointers of the model are total functions, and its division is total; the
  arrays of the source have \<open>M\<close> and \<open>N\<close> elements. The reads \<open>C[i]\<close> and \<open>C[j]\<close>
  of \<open>symbol_energy\<close> and \<open>qam_eval_mi\<close> have their index below \<open>M\<close> by the bounds
  of their loops. The reads \<open>C[bi]\<close> and \<open>C[bj]\<close> of \<open>qam_eval_gmi\<close> are inside the
  constellation when \<open>gmi_reads_in_bounds\<close> holds, which goes through the loops over
  \<open>k\<close>, \<open>b\<close> and the compact index of that function.
\<close>

definition gmi_reads_in_bounds :: "c_int \<Rightarrow> bool" where
  "gmi_reads_in_bounds M =
     (let m = double_to_int (log 2 (real_of_int (sint M)))
      in list_all (\<lambda>k.
           list_all (\<lambda>b.
             list_all (\<lambda>i. 0 \<le> gmi_index i k b m \<and> gmi_index i k b m < sint M)
               [0..<nat (sint M sdiv 2)])
             [0..<2])
           [0..<nat (sint m)])"

text \<open>
  A call of the gateway is defined by C when the sizes fit an \<open>int\<close>, the
  constellation is not empty (\<open>log2(0)\<close> is not convertible to \<open>int\<close>) and
  \<open>qam_eval_gmi\<close> reads inside the constellation. Nothing is stated in this theory
  about the values of the other calls.
\<close>

definition call_defined :: "mxArray list \<Rightarrow> bool" where
  "call_defined prhs \<longleftrightarrow>
     1 \<le> mxGetM (prhs ! 0) \<and> mxGetM (prhs ! 0) < 2 ^ 31 \<and> mxGetM (prhs ! 1) < 2 ^ 31
     \<and> gmi_reads_in_bounds (word_of_nat (mxGetM (prhs ! 0)))"

section \<open>What the specification says the components compute\<close>

text \<open>
  The definitions of this section follow the words of the specification, not the
  code. A constellation is the sequence \<open>C 0, \<dots>, C (M - 1)\<close>.

  BitSubsetIndexer: take the binary form of \<open>i\<close>, keep the bits below position
  \<open>k\<close>, move the bits at positions \<open>k\<close> and above one place to the left, and leave
  a zero at position \<open>k\<close>.
\<close>

definition BitSubsetIndexer :: "nat \<Rightarrow> nat \<Rightarrow> nat" where
  "BitSubsetIndexer i k = push_bit (Suc k) (drop_bit k i) + take_bit k i"

text \<open>Taking the inserted bit out again.\<close>

definition BitSubsetInverse :: "nat \<Rightarrow> nat \<Rightarrow> nat" where
  "BitSubsetInverse v k = push_bit k (drop_bit (Suc k) v) + take_bit k v"

text \<open>SymbolEnergyCalculator: \<open>Es = (1/M) * (sum of |C i|^2)\<close>.\<close>

definition SymbolEnergyCalculator :: "(nat \<Rightarrow> complex) \<Rightarrow> nat \<Rightarrow> real" where
  "SymbolEnergyCalculator C M = (1 / real M) * (\<Sum>i<M. (cmod (C i)) ^ 2)"

text \<open>
  The term of every sum of the two estimators, for the noise level \<open>\<sigma>\<close>, the node
  pair \<open>(l1, l2)\<close> and a difference \<open>d\<close> of two symbols:
  \<open>exp(-(|d|^2 - 2 \<sigma> Re[(x_l1 + j x_l2) d]) / \<sigma>^2)\<close>.
\<close>

definition node_term :: "real \<Rightarrow> nat \<Rightarrow> nat \<Rightarrow> complex \<Rightarrow> real" where
  "node_term \<sigma> l1 l2 d =
     exp (- ((cmod d)\<^sup>2 - 2 * \<sigma> * Re (Complex (x_GH ! l1) (x_GH ! l2) * d)) / \<sigma>\<^sup>2)"

text \<open>MutualInformationEstimator: \<open>T(i,l1,l2)\<close> and the value of MI.\<close>

definition T_sum :: "(nat \<Rightarrow> complex) \<Rightarrow> nat \<Rightarrow> real \<Rightarrow> nat \<Rightarrow> nat \<Rightarrow> nat \<Rightarrow> real" where
  "T_sum C M \<sigma> i l1 l2 = (\<Sum>j<M. node_term \<sigma> l1 l2 (C j - C i))"

definition MutualInformationEstimator :: "(nat \<Rightarrow> complex) \<Rightarrow> nat \<Rightarrow> real \<Rightarrow> real" where
  "MutualInformationEstimator C M \<sigma> =
     (\<Sum>i<M. \<Sum>l1<N_GH. \<Sum>l2<N_GH. - (w_GH ! l1 * w_GH ! l2 * log 2 (T_sum C M \<sigma> i l1 l2)))
       / (real M * pi) + log 2 (real M)"

text \<open>
  GeneralizedMutualInformationEstimator: the numerator runs over all \<open>M\<close> symbols,
  the denominator over the symbols whose bit \<open>k\<close> equals \<open>b\<close>.
\<close>

definition gmi_numerator :: "(nat \<Rightarrow> complex) \<Rightarrow> nat \<Rightarrow> real \<Rightarrow> nat \<Rightarrow> nat \<Rightarrow> nat \<Rightarrow> real" where
  "gmi_numerator C M \<sigma> bi l1 l2 = (\<Sum>j<M. node_term \<sigma> l1 l2 (C bi - C j))"

definition gmi_denominator ::
  "(nat \<Rightarrow> complex) \<Rightarrow> nat \<Rightarrow> real \<Rightarrow> nat \<Rightarrow> nat \<Rightarrow> nat \<Rightarrow> nat \<Rightarrow> nat \<Rightarrow> real" where
  "gmi_denominator C M \<sigma> k b bi l1 l2 =
     (\<Sum>j \<in> {j. j < M \<and> (bit j k \<longleftrightarrow> b = 1)}. node_term \<sigma> l1 l2 (C bi - C j))"

definition gmi_term :: "(nat \<Rightarrow> complex) \<Rightarrow> nat \<Rightarrow> real \<Rightarrow> nat \<Rightarrow> nat \<Rightarrow> nat \<Rightarrow> nat \<Rightarrow> nat \<Rightarrow> real" where
  "gmi_term C M \<sigma> k b i l1 l2 =
     (let bi = BitSubsetIndexer i k + push_bit k b
      in w_GH ! l1 * w_GH ! l2
           * log 2 (gmi_numerator C M \<sigma> bi l1 l2 / gmi_denominator C M \<sigma> k b bi l1 l2))"

definition GeneralizedMutualInformationEstimator ::
  "(nat \<Rightarrow> complex) \<Rightarrow> nat \<Rightarrow> nat \<Rightarrow> real \<Rightarrow> real" where
  "GeneralizedMutualInformationEstimator C M m \<sigma> =
     (\<Sum>k<m. \<Sum>b<2. \<Sum>i<M div 2. \<Sum>l1<N_GH. \<Sum>l2<N_GH. - gmi_term C M \<sigma> k b i l1 l2)
       / (real M * pi) + real m"

section \<open>Inputs used in the examples\<close>

text \<open>
  Three coinciding symbols at the origin with one SNR value of 0 dB, and the four
  points \<open>1+j, 1-j, -1+j, -1-j\<close> with three SNR values.
\<close>

definition zero_constellation :: c_double_complex_ptr where
  "zero_constellation i = 0"

definition zero_snr :: c_double_ptr where
  "zero_snr i = 0"

definition three_zero_points :: "mxArray list" where
  "three_zero_points =
     [\<lparr>mxGetM = 3, mxGetPr = zero_snr, mxGetComplexDoubles = zero_constellation\<rparr>,
      \<lparr>mxGetM = 1, mxGetPr = zero_snr, mxGetComplexDoubles = zero_constellation\<rparr>]"

definition snr_20_0_10 :: c_double_ptr where
  "snr_20_0_10 i = (if i = 0 then 20 else if i = 1 then 0 else 10)"

definition snr_5_0_7 :: c_double_ptr where
  "snr_5_0_7 i = (if i = 0 then 5 else if i = 1 then 0 else 7)"

definition qpsk :: c_double_complex_ptr where
  "qpsk i = (if i = 0 then Complex 1 1 else if i = 1 then Complex 1 (- 1)
             else if i = 2 then Complex (- 1) 1 else Complex (- 1) (- 1))"

definition qpsk_args :: "c_double_ptr \<Rightarrow> mxArray list" where
  "qpsk_args snr =
     [\<lparr>mxGetM = 4, mxGetPr = zero_snr, mxGetComplexDoubles = qpsk\<rparr>,
      \<lparr>mxGetM = 3, mxGetPr = snr, mxGetComplexDoubles = zero_constellation\<rparr>]"

text \<open>
  Three symbols \<open>1, -1, j\<close> of unit energy with one SNR value of 0 dB: the derived
  noise level is 1.
\<close>

definition three_points :: c_double_complex_ptr where
  "three_points i = (if i = 0 then 1 else if i = 1 then - 1 else \<i>)"

definition three_points_args :: "mxArray list" where
  "three_points_args =
     [\<lparr>mxGetM = 3, mxGetPr = zero_snr, mxGetComplexDoubles = three_points\<rparr>,
      \<lparr>mxGetM = 1, mxGetPr = zero_snr, mxGetComplexDoubles = zero_constellation\<rparr>]"

section \<open>Enclosures of the exponential function in exact integer arithmetic\<close>









section \<open>A constellation of two clusters on the real axis\<close>










section \<open>Bits of the inserted zero\<close>

lemma bit_BitSubsetIndexer:
  "bit (BitSubsetIndexer i k) n \<longleftrightarrow> (n < k \<and> bit i n) \<or> (k < n \<and> bit i (n - 1))"
proof -
  have "BitSubsetIndexer i k = push_bit (Suc k) (drop_bit k i) OR take_bit k i"
    unfolding BitSubsetIndexer_def
    by (rule disjunctive_add) (auto simp: bit_simps simp del: push_bit_Suc)
  then show ?thesis
    by (auto simp: bit_simps simp del: push_bit_Suc)
qed

lemma mask_word: "push_bit n (1::32 word) - 1 = mask n"
  by (simp add: mask_eq_exp_minus_1 push_bit_eq_mult)

lemma bit_insert_zero:
  "bit (insert_zero i k nb) n \<longleftrightarrow>
     n < 32 \<and> ((n < unat k \<and> bit i n) \<or>
       (unat (k + 1) \<le> n \<and> n - unat (k + 1) < unat (nb - k) \<and> 0 < n \<and> bit i (n - 1)))"
  unfolding insert_zero_def Let_def mask_word
  by (auto simp: bit_simps simp del: push_bit_Suc dest: bit_imp_le_length)

lemma nat_less_exp_bits: "(v::nat) < 2 ^ m \<longleftrightarrow> (\<forall>j\<ge>m. \<not> bit v j)"
proof
  assume less: "v < 2 ^ m"
  show "\<forall>j\<ge>m. \<not> bit v j"
  proof (intro allI impI)
    fix j assume "m \<le> j"
    then have "(2::nat) ^ m \<le> 2 ^ j" by simp
    with less have "v < 2 ^ j" by linarith
    then have "v div 2 ^ j = 0" by simp
    then show "\<not> bit v j" by (simp add: bit_iff_odd)
  qed
next
  assume a: "\<forall>j\<ge>m. \<not> bit v j"
  have "take_bit m v = v"
  proof (rule bit_eqI)
    fix n
    show "bit (take_bit m v) n = bit v n"
      using a by (cases "n < m") (simp_all add: bit_take_bit_iff)
  qed
  then show "v < 2 ^ m"
    by (simp add: take_bit_nat_eq_self_iff)
qed

lemma nat_bit_high: "(v::nat) < 2 ^ m \<Longrightarrow> m \<le> j \<Longrightarrow> \<not> bit v j"
  by (simp add: nat_less_exp_bits)

lemma unat_insert_zero:
  assumes "unat k < unat nb" "unat nb \<le> 30" "unat i < 2 ^ (unat nb - 1)"
  shows "unat (insert_zero i k nb) = BitSubsetIndexer (unat i) (unat k)"
proof (rule bit_eqI)
  fix n
  have k1: "unat (k + 1) = unat k + 1"
    using assms by (simp add: unat_word_ariths)
  have nbk: "unat (nb - k) = unat nb - unat k"
    using assms by (simp add: unat_sub word_le_nat_alt)
  have hi: "j < unat nb - 1" if "bit i j" for j
  proof (rule ccontr)
    assume "\<not> j < unat nb - 1"
    then have "\<not> bit (unat i) j"
      using nat_bit_high[OF assms(3), of j] by simp
    with that show False by (simp add: bit_unsigned_iff)
  qed
  have "bit (insert_zero i k nb) n \<longleftrightarrow>
        (n < unat k \<and> bit i n) \<or> (unat k < n \<and> bit i (n - 1))"
  proof (cases "bit i (n - 1)")
    case True
    from hi[OF True] assms show ?thesis
      unfolding bit_insert_zero k1 nbk using hi[of n] by (cases "bit i n") auto
  next
    case False
    with assms show ?thesis
      unfolding bit_insert_zero k1 nbk using hi[of n] by (cases "bit i n") auto
  qed
  then show "bit (unat (insert_zero i k nb)) n = bit (BitSubsetIndexer (unat i) (unat k)) n"
    by (simp add: bit_unsigned_iff bit_BitSubsetIndexer)
qed

lemma bit_BitSubsetInverse:
  "bit (BitSubsetInverse v k) n \<longleftrightarrow> (n < k \<and> bit v n) \<or> (k \<le> n \<and> bit v (Suc n))"
proof -
  have "BitSubsetInverse v k = push_bit k (drop_bit (Suc k) v) OR take_bit k v"
    unfolding BitSubsetInverse_def
    by (rule disjunctive_add) (auto simp: bit_simps )
  then show ?thesis
    by (auto simp: bit_simps )
qed

lemma BitSubsetInverse_Indexer: "BitSubsetInverse (BitSubsetIndexer i k) k = i"
proof (rule bit_eqI)
  fix n
  show "bit (BitSubsetInverse (BitSubsetIndexer i k) k) n = bit i n"
    unfolding bit_BitSubsetInverse bit_BitSubsetIndexer
    by (cases "n < k") auto
qed

lemma BitSubsetIndexer_Inverse:
  assumes "\<not> bit v k"
  shows "BitSubsetIndexer (BitSubsetInverse v k) k = v"
proof (rule bit_eqI)
  fix n
  consider "n < k" | "n = k" | "k < n" by linarith
  then show "bit (BitSubsetIndexer (BitSubsetInverse v k) k) n = bit v n"
  proof cases
    case 1
    then show ?thesis unfolding bit_BitSubsetInverse bit_BitSubsetIndexer by auto
  next
    case 2
    then show ?thesis unfolding bit_BitSubsetInverse bit_BitSubsetIndexer using assms by auto
  next
    case 3
    then have "Suc (n - 1) = n" "k \<le> n - 1" "\<not> n - 1 < k" "\<not> n < k" by auto
    then show ?thesis unfolding bit_BitSubsetInverse bit_BitSubsetIndexer using 3 by simp
  qed
qed

lemma BitSubsetIndexer_less:
  assumes "k < m" "i < 2 ^ (m - 1)"
  shows "BitSubsetIndexer i k < 2 ^ m"
  unfolding nat_less_exp_bits
proof (intro allI impI)
  fix j assume "m \<le> j"
  then have "m - 1 \<le> j - 1" "\<not> j < k" using assms(1) by auto
  then show "\<not> bit (BitSubsetIndexer i k) j"
    unfolding bit_BitSubsetIndexer using nat_bit_high[OF assms(2), of "j - 1"] by simp
qed

lemma BitSubsetInverse_less:
  assumes "k < m" "v < 2 ^ m"
  shows "BitSubsetInverse v k < 2 ^ (m - 1)"
  unfolding nat_less_exp_bits
proof (intro allI impI)
  fix j assume "m - 1 \<le> j"
  then have "m \<le> Suc j" "\<not> j < k" using assms(1) by auto
  then show "\<not> bit (BitSubsetInverse v k) j"
    unfolding bit_BitSubsetInverse using nat_bit_high[OF assms(2), of "Suc j"] by simp
qed

lemma BitSubsetIndexer_bit_k: "\<not> bit (BitSubsetIndexer i k) k"
  by (simp add: bit_BitSubsetIndexer)

lemma BitSubsetIndexer_bij:
  assumes "k < m"
  shows "bij_betw (\<lambda>i. BitSubsetIndexer i k) {..<2 ^ (m - 1)} {v. v < 2 ^ m \<and> \<not> bit v k}"
proof (rule bij_betw_byWitness[where f' = "\<lambda>v. BitSubsetInverse v k"])
  show "\<forall>i\<in>{..<2 ^ (m - 1)}. BitSubsetInverse (BitSubsetIndexer i k) k = i"
    by (simp add: BitSubsetInverse_Indexer)
  show "\<forall>v\<in>{v::nat. v < 2 ^ m \<and> \<not> bit v k}. BitSubsetIndexer (BitSubsetInverse v k) k = v"
    by (simp add: BitSubsetIndexer_Inverse)
  show "(\<lambda>i. BitSubsetIndexer i k) ` {..<2 ^ (m - 1)} \<subseteq> {v. v < 2 ^ m \<and> \<not> bit v k}"
    using assms by (auto simp: BitSubsetIndexer_less BitSubsetIndexer_bit_k)
  show "(\<lambda>v. BitSubsetInverse v k) ` {v::nat. v < 2 ^ m \<and> \<not> bit v k} \<subseteq> {..<2 ^ (m - 1)}"
    using BitSubsetInverse_less[OF assms] by auto
qed

section \<open>Loops as sums\<close>

lemma for_loop_sum:
  fixes a :: real
  assumes "\<And>i acc. i < n \<Longrightarrow> body i acc = acc + g i"
  shows "for_loop n body a = a + (\<Sum>i<n. g i)"
  using assms
proof (induction n)
  case 0
  show ?case by simp
next
  case (Suc n)
  have "for_loop n body a = a + (\<Sum>i<n. g i)"
    by (rule Suc.IH) (simp add: Suc.prems)
  then show ?case
    by (simp add: Suc.prems)
qed

lemma gh_exp_node_term: "gh_exp s l1 l2 d = node_term s l1 l2 d"
proof -
  have "complex_of_real (x_GH ! l1) + \<i> * complex_of_real (x_GH ! l2) = Complex (x_GH ! l1) (x_GH ! l2)"
    by (simp add: complex_eq_iff)
  then show ?thesis
    by (simp add: gh_exp_def node_term_def)
qed

lemma symbol_energy_sum:
  "symbol_energy C M = (\<Sum>i<nat (sint M). (cmod (C (int i))) ^ 2) / real_of_int (sint M)"
  unfolding symbol_energy_def Let_def
  by (subst for_loop_sum[where g = "\<lambda>i. (cmod (C (int i))) ^ 2"]) simp_all

lemma mi_tmp_sum:
  "mi_tmp C M s i l1 l2 = T_sum (\<lambda>j. C (int j)) (nat (sint M)) s i l1 l2"
  unfolding mi_tmp_def T_sum_def
  by (subst for_loop_sum[where g = "\<lambda>j. node_term s l1 l2 (C (int j) - C (int i))"])
     (simp_all add: gh_exp_node_term)

lemma qam_eval_mi_sum:
  "qam_eval_mi C M s =
     (\<Sum>i<nat (sint M). \<Sum>l1<N_GH. \<Sum>l2<N_GH.
         - (w_GH ! l1 * w_GH ! l2 * log 2 (mi_tmp C M s i l1 l2)))
       / (real_of_int (sint M) * pi) + log 2 (real_of_int (sint M))"
proof -
  let ?g = "\<lambda>i l1 l2. - (w_GH ! l1 * w_GH ! l2 * log 2 (mi_tmp C M s i l1 l2))"
  have l2: "for_loop N_GH (\<lambda>l2 MI. let tmp = mi_tmp C M s i l1 l2
              in MI - w_GH ! l1 * w_GH ! l2 * log 2 tmp) a = a + (\<Sum>l2<N_GH. ?g i l1 l2)" for i l1 a
    by (rule for_loop_sum) simp
  have l1: "for_loop N_GH (\<lambda>l1 MI. for_loop N_GH (\<lambda>l2 MI. let tmp = mi_tmp C M s i l1 l2
              in MI - w_GH ! l1 * w_GH ! l2 * log 2 tmp) MI) a
            = a + (\<Sum>l1<N_GH. \<Sum>l2<N_GH. ?g i l1 l2)" for i a
    by (rule for_loop_sum) (simp only: l2)
  have i: "for_loop n (\<lambda>i MI. for_loop N_GH (\<lambda>l1 MI. for_loop N_GH (\<lambda>l2 MI. let tmp = mi_tmp C M s i l1 l2
              in MI - w_GH ! l1 * w_GH ! l2 * log 2 tmp) MI) MI) a
            = a + (\<Sum>i<n. \<Sum>l1<N_GH. \<Sum>l2<N_GH. ?g i l1 l2)" for n a
    by (rule for_loop_sum) (simp only: l1)
  show ?thesis
    unfolding qam_eval_mi_def Let_def i[unfolded Let_def] by simp
qed

section \<open>The symbols that share a label bit\<close>

lemma bit_symbol_index:
  assumes "b < 2"
  shows "bit (BitSubsetIndexer i k + push_bit k b) n \<longleftrightarrow>
           (n < k \<and> bit i n) \<or> (n = k \<and> b = 1) \<or> (k < n \<and> bit i (n - 1))"
proof -
  have b: "b = 0 \<or> b = 1" using assms by auto
  have p1: "bit (push_bit k (1::nat)) j \<longleftrightarrow> j = k" for j
    unfolding push_bit_of_1 by (auto simp: bit_exp_iff)
  have pb: "bit (push_bit k b) j \<longleftrightarrow> j = k \<and> b = 1" for j
  proof (cases "b = 1")
    case True
    then show ?thesis by (simp only: p1 simp_thms)
  next
    case False
    with b have "b = 0" by simp
    then show ?thesis by simp
  qed
  have eq: "BitSubsetIndexer i k + push_bit k b = BitSubsetIndexer i k OR push_bit k b"
  proof (rule disjunctive_add)
    fix n show "\<not> bit (BitSubsetIndexer i k) n \<or> \<not> bit (push_bit k b) n"
      unfolding pb bit_BitSubsetIndexer by auto
  qed
  show ?thesis
    unfolding eq bit_or_iff pb bit_BitSubsetIndexer by auto
qed

lemma symbol_index_less:
  assumes "k < m" "i < 2 ^ (m - 1)" "b < 2"
  shows "BitSubsetIndexer i k + push_bit k b < 2 ^ m"
  unfolding nat_less_exp_bits
proof (intro allI impI)
  fix j assume "m \<le> j"
  then have "m - 1 \<le> j - 1" "\<not> j < k" "j \<noteq> k" using assms(1) by auto
  then show "\<not> bit (BitSubsetIndexer i k + push_bit k b) j"
    unfolding bit_symbol_index[OF assms(3)] using nat_bit_high[OF assms(2), of "j - 1"] by simp
qed

lemma BitSubsetInverse_symbol_index:
  assumes "b < 2"
  shows "BitSubsetInverse (BitSubsetIndexer i k + push_bit k b) k = i"
proof (rule bit_eqI)
  fix n
  show "bit (BitSubsetInverse (BitSubsetIndexer i k + push_bit k b) k) n = bit i n"
    unfolding bit_BitSubsetInverse bit_symbol_index[OF assms]
    by (cases "n < k") auto
qed

lemma symbol_index_Inverse:
  assumes "b < 2" "bit v k \<longleftrightarrow> b = 1"
  shows "BitSubsetIndexer (BitSubsetInverse v k) k + push_bit k b = v"
proof (rule bit_eqI)
  fix n
  consider "n < k" | "n = k" | "k < n" by linarith
  then show "bit (BitSubsetIndexer (BitSubsetInverse v k) k + push_bit k b) n = bit v n"
  proof cases
    case 1
    then show ?thesis unfolding bit_BitSubsetInverse bit_symbol_index[OF assms(1)] by auto
  next
    case 2
    then show ?thesis unfolding bit_BitSubsetInverse bit_symbol_index[OF assms(1)]
      using assms(2) by auto
  next
    case 3
    then have "Suc (n - 1) = n" "k \<le> n - 1" "\<not> n - 1 < k" "\<not> n < k" "n \<noteq> k" by auto
    then show ?thesis unfolding bit_BitSubsetInverse bit_symbol_index[OF assms(1)] using 3 by simp
  qed
qed

lemma symbol_index_bij:
  assumes "k < m" "b < 2"
  shows "bij_betw (\<lambda>i. BitSubsetIndexer i k + push_bit k b) {..<2 ^ (m - 1)}
           {v. v < 2 ^ m \<and> (bit v k \<longleftrightarrow> b = 1)}"
proof (rule bij_betw_byWitness[where f' = "\<lambda>v. BitSubsetInverse v k"])
  show "\<forall>i\<in>{..<2 ^ (m - 1)}. BitSubsetInverse (BitSubsetIndexer i k + push_bit k b) k = i"
    by (simp add: BitSubsetInverse_symbol_index[OF assms(2)])
  show "\<forall>v\<in>{v::nat. v < 2 ^ m \<and> (bit v k \<longleftrightarrow> b = 1)}.
          BitSubsetIndexer (BitSubsetInverse v k) k + push_bit k b = v"
    using symbol_index_Inverse[OF assms(2)] by simp
  show "(\<lambda>i. BitSubsetIndexer i k + push_bit k b) ` {..<2 ^ (m - 1)}
          \<subseteq> {v. v < 2 ^ m \<and> (bit v k \<longleftrightarrow> b = 1)}"
  proof (intro subsetI, elim imageE)
    fix v i assume v: "v = BitSubsetIndexer i k + push_bit k b" and "i \<in> {..<2 ^ (m - 1)}"
    then have "i < 2 ^ (m - 1)" by simp
    then have 1: "BitSubsetIndexer i k + push_bit k b < 2 ^ m"
      by (rule symbol_index_less[OF assms(1) _ assms(2)])
    have 2: "bit (BitSubsetIndexer i k + push_bit k b) k \<longleftrightarrow> b = 1"
      unfolding bit_symbol_index[OF assms(2)] by simp
    from 1 2 show "v \<in> {v. v < 2 ^ m \<and> (bit v k \<longleftrightarrow> b = 1)}"
      unfolding v by (simp only: mem_Collect_eq simp_thms)
  qed
  show "(\<lambda>v. BitSubsetInverse v k) ` {v::nat. v < 2 ^ m \<and> (bit v k \<longleftrightarrow> b = 1)} \<subseteq> {..<2 ^ (m - 1)}"
    using BitSubsetInverse_less[OF assms(1)] by auto
qed

lemma unat_word_of_nat32: "n < 2 ^ 32 \<Longrightarrow> unat (word_of_nat n :: 32 word) = n"
  by (simp add: unat_of_nat)

lemma sint_word_of_nat32: "n < 2 ^ 31 \<Longrightarrow> sint (word_of_nat n :: 32 word) = int n"
  by (simp add: signed_of_nat signed_take_bit_int_eq_self)

lemma pow2_le_30: "m \<le> 30 \<Longrightarrow> (2::nat) ^ m \<le> 2 ^ 30"
  by (rule power_increasing) simp_all

lemma gmi_index_eq:
  assumes "k < m" "m \<le> 30" "i < 2 ^ (m - 1)" "b < 2"
  shows "gmi_index i k b (word_of_nat m) = int (BitSubsetIndexer i k + push_bit k b)"
proof -
  have "(2::nat) ^ (m - 1) \<le> 2 ^ 30" "(2::nat) ^ m \<le> 2 ^ 30"
    using assms(2) by (simp_all only: pow2_le_30)
  then have pw: "(2::nat) ^ (m - 1) < 2 ^ 32" "(2::nat) ^ m < 2 ^ 31"
    by simp_all
  have ui: "unat (word_of_nat i :: 32 word) = i"
    using assms(3) pw by (intro unat_word_of_nat32) linarith
  have uk: "unat (word_of_nat k :: 32 word) = k"
    using assms by (intro unat_word_of_nat32) simp
  have um: "unat (word_of_nat m :: 32 word) = m"
    using assms by (intro unat_word_of_nat32) simp
  have iz: "unat (insert_zero (word_of_nat i) (word_of_nat k) (word_of_nat m)) = BitSubsetIndexer i k"
    using unat_insert_zero[of "word_of_nat k" "word_of_nat m" "word_of_nat i"] assms
    by (simp add: ui uk um)
  have lt: "BitSubsetIndexer i k + push_bit k b < 2 ^ 31"
    using symbol_index_less[OF assms(1,3,4)] pw by linarith
  have "insert_zero (word_of_nat i) (word_of_nat k) (word_of_nat m) + push_bit k (word_of_nat b)
          = (word_of_nat (BitSubsetIndexer i k + push_bit k b) :: 32 word)"
    by (simp add: iz[symmetric] push_bit_of_nat)
  then show ?thesis
    unfolding gmi_index_def using sint_word_of_nat32[OF lt] by simp
qed

section \<open>The loops of the bit-wise estimator\<close>

lemma power_of_two_int:
  assumes "sint (M :: 32 word) = 2 ^ m"
  shows "m \<le> 30"
proof (rule ccontr)
  assume "\<not> m \<le> 30"
  then have "31 \<le> m" by simp
  then have "(2::int) ^ 31 \<le> 2 ^ m" by (rule power_increasing) simp
  moreover have "sint M < 2 ^ 31"
    using sint_lt[of M] by simp
  ultimately show False using assms by simp
qed

lemma double_to_int_log2:
  assumes "sint (M :: 32 word) = 2 ^ m"
  shows "double_to_int (log 2 (real_of_int (sint M))) = word_of_nat m"
proof -
  have "log 2 (real_of_int (sint M)) = real m"
    by (simp add: assms)
  then show ?thesis
    by (simp add: double_to_int_def)
qed

lemma sint_label_width:
  assumes "m \<le> 30"
  shows "sint (word_of_nat m :: 32 word) = int m"
  using assms by (intro sint_word_of_nat32) simp

lemma half_power_of_two:
  assumes "sint (M :: 32 word) = 2 ^ m" "1 \<le> m"
  shows "nat (sint M sdiv 2) = 2 ^ (m - 1)"
proof -
  obtain n where m: "m = Suc n" using assms(2) by (cases m) auto
  have "sint M sdiv 2 = 2 ^ n"
    by (simp add: assms(1) m signed_divide_int_def)
  then show ?thesis
    by (simp add: m nat_power_eq)
qed

lemma gmi_tmp_num_sum:
  "gmi_tmp_num C M s (int v) l1 l2 = gmi_numerator (\<lambda>j. C (int j)) (nat (sint M)) s v l1 l2"
  unfolding gmi_tmp_num_def gmi_numerator_def
  by (subst for_loop_sum[where g = "\<lambda>j. node_term s l1 l2 (C (int v) - C (int j))"])
     (simp_all add: gh_exp_node_term)

lemma gmi_tmp_den_sum:
  assumes "sint (M :: 32 word) = 2 ^ m" "k < m" "b < 2"
  shows "gmi_tmp_den C M s k b (word_of_nat m) (int v) l1 l2
           = gmi_denominator (\<lambda>j. C (int j)) (nat (sint M)) s k b v l1 l2"
proof -
  have m30: "m \<le> 30" by (rule power_of_two_int[OF assms(1)])
  have m1: "1 \<le> m" using assms(2) by simp
  have half: "nat (sint M sdiv 2) = 2 ^ (m - 1)"
    by (rule half_power_of_two[OF assms(1) m1])
  have M: "nat (sint M) = 2 ^ m"
    by (simp add: assms(1) nat_power_eq)
  let ?ix = "\<lambda>j. BitSubsetIndexer j k + push_bit k b"
  let ?f = "\<lambda>u. node_term s l1 l2 (C (int v) - C (int u))"
  have "gmi_tmp_den C M s k b (word_of_nat m) (int v) l1 l2 = 0 + (\<Sum>j<2 ^ (m - 1). ?f (?ix j))"
    unfolding gmi_tmp_den_def half
    by (rule for_loop_sum)
       (simp add: Let_def gh_exp_node_term gmi_index_eq[OF assms(2) m30 _ assms(3)])
  also have "(\<Sum>j<2 ^ (m - 1). ?f (?ix j)) = (\<Sum>u\<in>{u. u < 2 ^ m \<and> (bit u k \<longleftrightarrow> b = 1)}. ?f u)"
    by (rule sum.reindex_bij_betw[OF symbol_index_bij[OF assms(2,3)]])
  finally show ?thesis
    by (simp add: gmi_denominator_def M)
qed

lemma qam_eval_gmi_sum:
  "qam_eval_gmi C M s =
     (let m = double_to_int (log 2 (real_of_int (sint M))) in
      (\<Sum>k<nat (sint m). \<Sum>b<2. \<Sum>i<nat (sint M sdiv 2). \<Sum>l1<N_GH. \<Sum>l2<N_GH.
         - (w_GH ! l1 * w_GH ! l2
             * log 2 (gmi_tmp_num C M s (gmi_index i k b m) l1 l2
                       / gmi_tmp_den C M s k b m (gmi_index i k b m) l1 l2)))
       / (real_of_int (sint M) * pi) + real_of_int (sint m))"
proof -
  define m where "m = double_to_int (log 2 (real_of_int (sint M)))"
  define g where "g = (\<lambda>k b i l1 l2. - (w_GH ! l1 * w_GH ! l2
             * log 2 (gmi_tmp_num C M s (gmi_index i k b m) l1 l2
                       / gmi_tmp_den C M s k b m (gmi_index i k b m) l1 l2)))"
  define B5 where "B5 = (\<lambda>k b i l1 l2 (GMI::real).
     let tmp_num = gmi_tmp_num C M s (gmi_index i k b m) l1 l2;
         tmp_den = gmi_tmp_den C M s k b m (gmi_index i k b m) l1 l2
     in GMI - w_GH ! l1 * w_GH ! l2 * log 2 (tmp_num / tmp_den))"
  have b5: "B5 k b i l1 l2 a = a + g k b i l1 l2" for k b i l1 l2 a
    by (simp add: B5_def g_def Let_def)
  have l2: "for_loop N_GH (B5 k b i l1) a = a + (\<Sum>l2<N_GH. g k b i l1 l2)" for k b i l1 a
    by (rule for_loop_sum) (rule b5)
  have l1: "for_loop N_GH (\<lambda>l1 GMI. for_loop N_GH (B5 k b i l1) GMI) a
              = a + (\<Sum>l1<N_GH. \<Sum>l2<N_GH. g k b i l1 l2)" for k b i a
    by (rule for_loop_sum) (rule l2)
  have li: "for_loop n (\<lambda>i GMI. let bi = gmi_index i k b m in
                for_loop N_GH (\<lambda>l1 GMI. for_loop N_GH (\<lambda>l2 GMI.
                  let tmp_num = gmi_tmp_num C M s bi l1 l2;
                      tmp_den = gmi_tmp_den C M s k b m bi l1 l2
                  in GMI - w_GH ! l1 * w_GH ! l2 * log 2 (tmp_num / tmp_den)) GMI) GMI) a
              = a + (\<Sum>i<n. \<Sum>l1<N_GH. \<Sum>l2<N_GH. g k b i l1 l2)" for k b n a
    by (rule for_loop_sum) (simp only: Let_def l1[unfolded B5_def Let_def])
  have lb: "for_loop 2 (\<lambda>b GMI. for_loop n (\<lambda>i GMI. let bi = gmi_index i k b m in
                for_loop N_GH (\<lambda>l1 GMI. for_loop N_GH (\<lambda>l2 GMI.
                  let tmp_num = gmi_tmp_num C M s bi l1 l2;
                      tmp_den = gmi_tmp_den C M s k b m bi l1 l2
                  in GMI - w_GH ! l1 * w_GH ! l2 * log 2 (tmp_num / tmp_den)) GMI) GMI) GMI) a
              = a + (\<Sum>b<2. \<Sum>i<n. \<Sum>l1<N_GH. \<Sum>l2<N_GH. g k b i l1 l2)" for k n a
    by (rule for_loop_sum) (simp only: li)
  have lk: "for_loop n' (\<lambda>k GMI. for_loop 2 (\<lambda>b GMI. for_loop n (\<lambda>i GMI. let bi = gmi_index i k b m in
                for_loop N_GH (\<lambda>l1 GMI. for_loop N_GH (\<lambda>l2 GMI.
                  let tmp_num = gmi_tmp_num C M s bi l1 l2;
                      tmp_den = gmi_tmp_den C M s k b m bi l1 l2
                  in GMI - w_GH ! l1 * w_GH ! l2 * log 2 (tmp_num / tmp_den)) GMI) GMI) GMI) GMI) a
              = a + (\<Sum>k<n'. \<Sum>b<2. \<Sum>i<n. \<Sum>l1<N_GH. \<Sum>l2<N_GH. g k b i l1 l2)" for n' n a
    by (rule for_loop_sum) (simp only: lb)
  show ?thesis
    unfolding qam_eval_gmi_def Let_def m_def[symmetric] lk[unfolded Let_def]
    by (simp add: g_def)
qed

lemma gmi_term_code:
  assumes M: "sint (M :: 32 word) = 2 ^ m" and k: "k < m" and b: "b < 2" and i: "i < 2 ^ (m - 1)"
  shows "w_GH ! l1 * w_GH ! l2
           * log 2 (gmi_tmp_num C M s (gmi_index i k b (word_of_nat m)) l1 l2
                     / gmi_tmp_den C M s k b (word_of_nat m) (gmi_index i k b (word_of_nat m)) l1 l2)
         = gmi_term (\<lambda>j. C (int j)) (nat (sint M)) s k b i l1 l2"
proof -
  have m30: "m \<le> 30" by (rule power_of_two_int[OF M])
  show ?thesis
    unfolding gmi_term_def Let_def gmi_index_eq[OF k m30 i b]
      gmi_tmp_num_sum gmi_tmp_den_sum[OF M k b] ..
qed

lemma qam_eval_gmi_spec:
  assumes M: "sint (M :: 32 word) = 2 ^ m" and m: "1 \<le> m"
  shows "qam_eval_gmi C M s
           = GeneralizedMutualInformationEstimator (\<lambda>j. C (int j)) (nat (sint M)) m s"
proof -
  have m30: "m \<le> 30" by (rule power_of_two_int[OF M])
  have half: "nat (sint M sdiv 2) = 2 ^ (m - 1)"
    by (rule half_power_of_two[OF M m])
  have Mn: "nat (sint M) = 2 ^ m"
    by (simp add: M nat_power_eq)
  have half': "nat (sint M) div 2 = 2 ^ (m - 1)"
    using m unfolding Mn by (cases m) simp_all
  have rM: "real_of_int (sint M) = real (nat (sint M))"
    by (simp add: M)
  have code: "qam_eval_gmi C M s =
      (\<Sum>k<m. \<Sum>b<2. \<Sum>i<2 ^ (m - 1). \<Sum>l1<N_GH. \<Sum>l2<N_GH.
         - (w_GH ! l1 * w_GH ! l2
             * log 2 (gmi_tmp_num C M s (gmi_index i k b (word_of_nat m)) l1 l2
                       / gmi_tmp_den C M s k b (word_of_nat m) (gmi_index i k b (word_of_nat m)) l1 l2)))
       / (real_of_int (sint M) * pi) + real m"
    unfolding qam_eval_gmi_sum Let_def double_to_int_log2[OF M] sint_label_width[OF m30] half
    by simp
  have terms: "(\<Sum>k<m. \<Sum>b<2. \<Sum>i<2 ^ (m - 1). \<Sum>l1<N_GH. \<Sum>l2<N_GH.
         - (w_GH ! l1 * w_GH ! l2
             * log 2 (gmi_tmp_num C M s (gmi_index i k b (word_of_nat m)) l1 l2
                       / gmi_tmp_den C M s k b (word_of_nat m) (gmi_index i k b (word_of_nat m)) l1 l2)))
      = (\<Sum>k<m. \<Sum>b<2. \<Sum>i<2 ^ (m - 1). \<Sum>l1<N_GH. \<Sum>l2<N_GH.
           - gmi_term (\<lambda>j. C (int j)) (nat (sint M)) s k b i l1 l2)"
    by (intro sum.cong refl arg_cong[where f = uminus] gmi_term_code[OF M]) simp_all
  show ?thesis
    unfolding code terms GeneralizedMutualInformationEstimator_def half' rM ..
qed

section \<open>The estimators compute the sums of the specification\<close>

lemma node_term_zero: "node_term s l1 l2 0 = 1"
  by (simp add: node_term_def)

lemma node_term_pos: "0 < node_term s l1 l2 d"
  by (simp add: node_term_def)

lemma qam_eval_mi_spec:
  assumes "1 \<le> sint M"
  shows "qam_eval_mi C M s = MutualInformationEstimator (\<lambda>j. C (int j)) (nat (sint M)) s"
proof -
  have "real_of_int (sint M) = real (nat (sint M))"
    using assms by simp
  then show ?thesis
    unfolding qam_eval_mi_sum MutualInformationEstimator_def mi_tmp_sum by simp
qed

lemma T_sum_ge_1:
  assumes "i < M"
  shows "1 \<le> T_sum C M s i l1 l2"
proof -
  have "node_term s l1 l2 (C i - C i) \<le> (\<Sum>j<M. node_term s l1 l2 (C j - C i))"
    by (rule member_le_sum) (use assms in \<open>simp_all add: less_imp_le[OF node_term_pos]\<close>)
  then show ?thesis
    by (simp add: T_sum_def node_term_zero)
qed

lemma symbol_energy_spec:
  "symbol_energy C M = SymbolEnergyCalculator (\<lambda>i. C (int i)) (nat (sint M))" if "1 \<le> sint M"
proof -
  have "real_of_int (sint M) = real (nat (sint M))"
    using that by simp
  then show ?thesis
    unfolding symbol_energy_sum SymbolEnergyCalculator_def by simp
qed

text \<open>
  C1. For a constellation of \<open>M = 2^m\<close> points, \<open>m\<close> positive, and a noise level
  \<open>s > 0\<close>, \<open>qam_eval_gmi\<close> returns the value of the specification: for every bit
  position \<open>k < m\<close>, bit value \<open>b\<close>, compact index \<open>i < M/2\<close> and node pair
  \<open>(l1, l2)\<close> it subtracts \<open>w_l1 * w_l2 * log2 (numerator / denominator)\<close>, where
  \<open>bi\<close> is BitSubsetIndexer of \<open>i\<close> plus \<open>b<<k\<close>, the numerator is the sum over all
  \<open>M\<close> symbols and the denominator the same sum over the symbols whose bit \<open>k\<close>
  equals \<open>b\<close>; the accumulated value is divided by \<open>M * pi\<close> and \<open>m\<close> is added.
\<close>

theorem qam_eval_gmi_refines_spec:
  assumes "sint M = 2 ^ m" and "1 \<le> m" and "0 < s"
  shows "qam_eval_gmi C M s
           = GeneralizedMutualInformationEstimator (\<lambda>j. C (int j)) (nat (sint M)) m s"
  using assms(1,2) by (rule qam_eval_gmi_spec)

theorem qam_eval_gmi_refines_spec_witness:
  "sint (2 :: 32 word) = 2 ^ 1 \<and> (1::nat) \<le> 1 \<and> (0::real) < 1
   \<and> qam_eval_gmi (\<lambda>i. 0) 2 1
       = GeneralizedMutualInformationEstimator (\<lambda>j. 0) (nat (sint (2 :: 32 word))) 1 1"
  using qam_eval_gmi_refines_spec[of 2 1 1 "\<lambda>i. 0"] by simp

text \<open>
  C2. For a constellation of \<open>M \<ge> 1\<close> points and a noise level \<open>s > 0\<close>,
  \<open>qam_eval_mi\<close> returns the value of the specification: for every symbol \<open>i\<close>
  and node pair \<open>(l1, l2)\<close> it subtracts \<open>w_l1 * w_l2 * log2 (T i l1 l2)\<close>, with
  \<open>T\<close> the sum over all \<open>M\<close> symbols \<open>j\<close>, whose term for \<open>j = i\<close> is 1; the
  accumulated value is divided by \<open>M * pi\<close> and \<open>log2 M\<close> is added.
\<close>

theorem qam_eval_mi_refines_spec:
  assumes "1 \<le> sint M" and "0 < s"
  shows "qam_eval_mi C M s = MutualInformationEstimator (\<lambda>j. C (int j)) (nat (sint M)) s
         \<and> node_term s l1 l2 (C (int i) - C (int i)) = 1"
  using assms(1) by (simp add: qam_eval_mi_spec node_term_zero)

theorem qam_eval_mi_refines_spec_witness:
  "1 \<le> sint (3 :: 32 word) \<and> (0::real) < 1
   \<and> qam_eval_mi (\<lambda>i. 0) 3 1 = MutualInformationEstimator (\<lambda>j. 0) (nat (sint (3 :: 32 word))) 1
   \<and> node_term 1 0 0 ((0::complex) - 0) = 1"
  using qam_eval_mi_refines_spec[of 3 1 "\<lambda>i. 0" 0 0 0] by simp

text \<open>
  C8. For every constellation, every symbol index \<open>i\<close> below \<open>M\<close>, every node pair
  and every \<open>s > 0\<close>, the inner sum \<open>tmp\<close> of \<open>qam_eval_mi\<close> is at least 1: the
  term for \<open>j = i\<close> is \<open>exp 0 = 1\<close> and every term is positive. The argument of
  \<open>log2\<close> is therefore positive.
\<close>

theorem mi_tmp_at_least_one:
  assumes "0 < s" and "0 \<le> i" and "i < sint M" and "l1 < N_GH" and "l2 < N_GH"
  shows "1 \<le> mi_tmp C M s (nat i) l1 l2 \<and> 0 < mi_tmp C M s (nat i) l1 l2
         \<and> gh_exp s l1 l2 (C i - C i) = 1 \<and> 0 < gh_exp s l1 l2 (C j - C i)"
proof -
  have "nat i < nat (sint M)" using assms(2,3) by simp
  then have "1 \<le> mi_tmp C M s (nat i) l1 l2"
    unfolding mi_tmp_sum by (rule T_sum_ge_1)
  then show ?thesis
    by (simp add: gh_exp_node_term node_term_zero node_term_pos)
qed

theorem mi_tmp_at_least_one_witness:
  "(0::real) < 1 \<and> (0::int) \<le> 1 \<and> 1 < sint (2 :: 32 word) \<and> 3 < N_GH \<and> 4 < N_GH
   \<and> 1 \<le> mi_tmp (\<lambda>i. 0) 2 1 (nat 1) 3 4 \<and> 0 < mi_tmp (\<lambda>i. 0) 2 1 (nat 1) 3 4
   \<and> gh_exp 1 3 4 ((0::complex) - 0) = 1 \<and> 0 < gh_exp 1 3 4 ((0::complex) - 0)"
  using mi_tmp_at_least_one[of 1 1 2 3 4 "\<lambda>i. 0" 0] by (simp add: N_GH_def)

text \<open>
  C9. For a constellation of \<open>M \<ge> 1\<close> points, \<open>symbol_energy\<close> returns
  \<open>(1/M) * (sum of |C i|^2)\<close>, which is not negative. It is a function of its two
  arguments alone.
\<close>

theorem symbol_energy_mean_square:
  assumes "1 \<le> sint M"
  shows "symbol_energy C M = SymbolEnergyCalculator (\<lambda>i. C (int i)) (nat (sint M))
         \<and> 0 \<le> symbol_energy C M"
proof -
  have "0 \<le> SymbolEnergyCalculator (\<lambda>i. C (int i)) (nat (sint M))"
    unfolding SymbolEnergyCalculator_def by (intro mult_nonneg_nonneg sum_nonneg) simp_all
  then show ?thesis
    by (simp add: symbol_energy_spec[OF assms])
qed

theorem symbol_energy_mean_square_witness:
  "1 \<le> sint (4 :: 32 word)
   \<and> symbol_energy (\<lambda>i. 1) 4 = SymbolEnergyCalculator (\<lambda>i. 1) (nat (sint (4 :: 32 word)))
   \<and> 0 \<le> symbol_energy (\<lambda>i. 1) 4"
  using symbol_energy_mean_square[of 4 "\<lambda>i. 1"] by simp

section \<open>The zero insertion on machine words\<close>

lemma BitSubsetIndexer_inj: "BitSubsetIndexer i k = BitSubsetIndexer j k \<Longrightarrow> i = j"
  by (metis BitSubsetInverse_Indexer)

lemma pow2_lt_32: "m \<le> 30 \<Longrightarrow> (2::nat) ^ m < 2 ^ 32"
  using pow2_le_30[of m] by simp

lemma insert_zero_bij_word:
  assumes nb: "unat nb \<le> 30" and k: "unat k < unat nb"
  shows "bij_betw (\<lambda>i. insert_zero i k nb) {i. unat i < 2 ^ (unat nb - 1)}
           {v. unat v < 2 ^ unat nb \<and> \<not> bit v (unat k)}"
proof (rule bij_betw_byWitness[where f' = "\<lambda>v. word_of_nat (BitSubsetInverse (unat v) (unat k))"])
  have inv_unat: "unat (word_of_nat (BitSubsetInverse (unat v) (unat k)) :: 32 word)
                    = BitSubsetInverse (unat v) (unat k)" if "unat v < 2 ^ unat nb" for v :: "32 word"
  proof (rule unat_word_of_nat32)
    have "BitSubsetInverse (unat v) (unat k) < 2 ^ (unat nb - 1)"
      by (rule BitSubsetInverse_less[OF k that])
    moreover have "(2::nat) ^ (unat nb - 1) < 2 ^ 32"
      using nb by (intro pow2_lt_32) simp
    ultimately show "BitSubsetInverse (unat v) (unat k) < 2 ^ 32" by linarith
  qed
  show "\<forall>i\<in>{i. unat i < 2 ^ (unat nb - 1)}.
          word_of_nat (BitSubsetInverse (unat (insert_zero i k nb)) (unat k)) = i"
    by (simp add: unat_insert_zero[OF k nb] BitSubsetInverse_Indexer)
  show "\<forall>v\<in>{v. unat v < 2 ^ unat nb \<and> \<not> bit v (unat k)}.
          insert_zero (word_of_nat (BitSubsetInverse (unat v) (unat k))) k nb = v"
  proof
    fix v :: "32 word" assume "v \<in> {v. unat v < 2 ^ unat nb \<and> \<not> bit v (unat k)}"
    then have v: "unat v < 2 ^ unat nb" and bk: "\<not> bit (unat v) (unat k)"
      by (simp_all add: bit_unsigned_iff)
    let ?i = "word_of_nat (BitSubsetInverse (unat v) (unat k)) :: 32 word"
    have "unat ?i < 2 ^ (unat nb - 1)"
      unfolding inv_unat[OF v] by (rule BitSubsetInverse_less[OF k v])
    then have "unat (insert_zero ?i k nb) = BitSubsetIndexer (unat ?i) (unat k)"
      by (rule unat_insert_zero[OF k nb])
    also have "\<dots> = unat v"
      unfolding inv_unat[OF v] by (rule BitSubsetIndexer_Inverse[OF bk])
    finally show "insert_zero ?i k nb = v"
      by (rule word_unat_eq_iff[THEN iffD2])
  qed
  show "(\<lambda>i. insert_zero i k nb) ` {i. unat i < 2 ^ (unat nb - 1)}
          \<subseteq> {v. unat v < 2 ^ unat nb \<and> \<not> bit v (unat k)}"
  proof (intro subsetI, elim imageE)
    fix v i :: "32 word" assume v: "v = insert_zero i k nb" and "i \<in> {i. unat i < 2 ^ (unat nb - 1)}"
    then have i: "unat i < 2 ^ (unat nb - 1)" by simp
    have u: "unat v = BitSubsetIndexer (unat i) (unat k)"
      unfolding v by (rule unat_insert_zero[OF k nb i])
    have "unat v < 2 ^ unat nb"
      unfolding u by (rule BitSubsetIndexer_less[OF k i])
    moreover have "\<not> bit (unat v) (unat k)"
      unfolding u by (rule BitSubsetIndexer_bit_k)
    ultimately show "v \<in> {v. unat v < 2 ^ unat nb \<and> \<not> bit v (unat k)}"
      by (simp add: bit_unsigned_iff)
  qed
  show "(\<lambda>v. word_of_nat (BitSubsetInverse (unat v) (unat k))) `
          {v :: 32 word. unat v < 2 ^ unat nb \<and> \<not> bit v (unat k)} \<subseteq> {i :: 32 word. unat i < 2 ^ (unat nb - 1)}"
  proof (intro subsetI, elim imageE)
    fix i v :: "32 word"
    assume i: "i = word_of_nat (BitSubsetInverse (unat v) (unat k))"
      and "v \<in> {v. unat v < 2 ^ unat nb \<and> \<not> bit v (unat k)}"
    then have v: "unat v < 2 ^ unat nb" by simp
    have "unat i < 2 ^ (unat nb - 1)"
      unfolding i inv_unat[OF v] by (rule BitSubsetInverse_less[OF k v])
    then show "i \<in> {i. unat i < 2 ^ (unat nb - 1)}" by simp
  qed
qed

text \<open>
  C3, as the code has it. For a label width \<open>nb\<close> from 1 to 30 and a bit position
  \<open>k\<close> below it, \<open>insert_zero\<close> maps the compact indices below \<open>2^(nb-1)\<close> one
  to one onto the \<open>nb\<close>-bit values whose bit \<open>k\<close> is 0, and its value is the
  index with a zero bit inserted at position \<open>k\<close>. The widths from 1 to 30 are
  those for which every shift of the source is defined, and all that a
  constellation size \<open>M = 2^nb\<close> held in an \<open>int\<close> allows.
\<close>

theorem insert_zero_bijection:
  assumes "1 \<le> unat nb" and "unat nb \<le> 30" and "unat k < unat nb"
    and "unat i < 2 ^ (unat nb - 1)"
  shows "bij_betw (\<lambda>i. insert_zero i k nb) {i. unat i < 2 ^ (unat nb - 1)}
           {v. unat v < 2 ^ unat nb \<and> \<not> bit v (unat k)}
         \<and> unat (insert_zero i k nb) = BitSubsetIndexer (unat i) (unat k)"
  using insert_zero_bij_word[OF assms(2,3)] unat_insert_zero[OF assms(3,2,4)] by simp

theorem insert_zero_bijection_witness:
  "1 \<le> unat (4 :: 32 word) \<and> unat (4 :: 32 word) \<le> 30 \<and> unat (1 :: 32 word) < unat (4 :: 32 word)
   \<and> unat (5 :: 32 word) < 2 ^ (unat (4 :: 32 word) - 1)
   \<and> bij_betw (\<lambda>i. insert_zero i 1 4) {i. unat i < 2 ^ (unat (4 :: 32 word) - 1)}
           {v. unat v < 2 ^ unat (4 :: 32 word) \<and> \<not> bit v (unat (1 :: 32 word))}
   \<and> unat (insert_zero 5 1 4) = BitSubsetIndexer (unat (5 :: 32 word)) (unat (1 :: 32 word))
   \<and> insert_zero 5 1 4 = 9"
  using insert_zero_bijection[of 4 1 5] by (simp add: insert_zero_def)

text \<open>
  C3 as stated, for every label width, fails on 32-bit words: at the width 33
  the compact indices 0 and \<open>2^31\<close> are both below \<open>2^32\<close> and have the same
  image. Both results are 0 whatever the mask is, since \<open>i<<1\<close> is 0 for both and
  the mask of the low bits is empty for \<open>k = 0\<close>.
\<close>

theorem insert_zero_not_injective_33:
  "unat (0 :: 32 word) < 2 ^ (unat (33 :: 32 word) - 1)
   \<and> unat (2147483648 :: 32 word) < 2 ^ (unat (33 :: 32 word) - 1)
   \<and> (0 :: 32 word) \<noteq> 2147483648
   \<and> insert_zero 0 0 33 = insert_zero 2147483648 0 33"
  by (simp add: insert_zero_def)

section \<open>The denominator of the bit-wise estimator is part of its numerator\<close>

lemma w_GH_nonneg: "l < N_GH \<Longrightarrow> 0 \<le> w_GH ! l"
proof -
  have "\<forall>v\<in>set w_GH. 0 \<le> v"
    by (simp add: w_GH_def)
  moreover assume "l < N_GH"
  then have "w_GH ! l \<in> set w_GH"
    by (intro nth_mem) (simp add: w_GH_def N_GH_def)
  ultimately show ?thesis by blast
qed

lemma gmi_denominator_le_numerator:
  "gmi_denominator C M s k b v l1 l2 \<le> gmi_numerator C M s v l1 l2"
  unfolding gmi_denominator_def gmi_numerator_def
  by (rule sum_mono2) (auto simp: less_imp_le[OF node_term_pos])

lemma gmi_denominator_ge_1:
  assumes "v < M" "bit v k \<longleftrightarrow> b = 1"
  shows "1 \<le> gmi_denominator C M s k b v l1 l2"
proof -
  have "node_term s l1 l2 (C v - C v)
          \<le> (\<Sum>j \<in> {j. j < M \<and> (bit j k \<longleftrightarrow> b = 1)}. node_term s l1 l2 (C v - C j))"
    by (rule member_le_sum) (use assms in \<open>simp_all add: less_imp_le[OF node_term_pos]\<close>)
  then show ?thesis
    by (simp add: gmi_denominator_def node_term_zero)
qed

lemma symbol_index_inj:
  assumes "b < 2" "BitSubsetIndexer i k + push_bit k b = BitSubsetIndexer j k + push_bit k b"
  shows "i = j"
  using assms by simp (metis BitSubsetInverse_Indexer)

lemma symbol_index_bit_k:
  assumes "b < 2"
  shows "bit (BitSubsetIndexer i k + push_bit k b) k \<longleftrightarrow> b = 1"
  unfolding bit_symbol_index[OF assms] by simp


lemma log2_6_floor: "\<lfloor>log 2 (6::real)\<rfloor> = 2"
proof -
  have "log 2 (4::real) \<le> log 2 6" "log 2 (6::real) < log 2 8"
    by simp_all
  moreover have "log 2 (4::real) = 2" "log 2 (8::real) = 3"
    using log_pow_cancel[of 2 2] log_pow_cancel[of 2 3] by simp_all
  ultimately have "2 \<le> log 2 (6::real)" "log 2 (6::real) < 3"
    by simp_all
  then show ?thesis
    by (simp add: floor_eq_iff)
qed

lemma double_to_int_log2_6: "double_to_int (log 2 (real_of_int (sint (6 :: 32 word)))) = 2"
proof -
  have "0 \<le> log 2 (6::real)" by simp
  then show ?thesis
    by (simp add: double_to_int_def log2_6_floor)
qed


text \<open>
  C10 as stated, for every constellation size, fails when \<open>M\<close> is not a power of
  two, which \<open>qam_eval_gmi\<close> does not check. For \<open>M = 6\<close> the code takes \<open>m = 2\<close>
  and \<open>M/2 = 3\<close>; the bit position \<open>k = 1\<close> and the compact index \<open>j = 2\<close> are
  in the range of their loops, and with \<open>b = 1\<close> the denominator reads the index
  \<open>bj = 6\<close>, which is not below \<open>M\<close>.
\<close>

theorem gmi_index_escapes_for_6_points:
  "(1::nat) < nat (sint (double_to_int (log 2 (real_of_int (sint (6 :: 32 word))))))
   \<and> (2::nat) < nat (sint (6 :: 32 word) sdiv 2)
   \<and> gmi_index 2 1 1 (double_to_int (log 2 (real_of_int (sint (6 :: 32 word))))) = 6
   \<and> \<not> (6 < sint (6 :: 32 word))"
  unfolding double_to_int_log2_6
  by (simp add: gmi_index_def insert_zero_def signed_divide_int_def)

text \<open>
  C10, as the code has it: when \<open>M = 2^m\<close> with \<open>m\<close> positive and \<open>s > 0\<close>. The
  code's \<open>m\<close> and \<open>M/2\<close> are then \<open>m\<close> and \<open>2^(m-1)\<close>. For every bit position
  \<open>k < m\<close>, bit value \<open>b\<close>, compact indices \<open>i\<close> and \<open>j\<close> below \<open>M/2\<close> and node
  pair: the index \<open>bj\<close> of the denominator lies in the range \<open>[0, M)\<close> of the
  numerator, different \<open>j\<close> give different \<open>bj\<close>, and the term for \<open>bj = bi\<close> is
  \<open>exp 0 = 1\<close>; hence \<open>tmp_num \<ge> tmp_den \<ge> 1\<close>, the quotient is at least 1 and
  the term that is accumulated is at most 0.
\<close>

theorem gmi_denominator_is_sub_sum:
  assumes "sint M = 2 ^ m" and "1 \<le> m" and "0 < s" and "k < m" and "b < 2"
    and "i < 2 ^ (m - 1)" and "j < 2 ^ (m - 1)" and "l1 < N_GH" and "l2 < N_GH"
  shows "double_to_int (log 2 (real_of_int (sint M))) = word_of_nat m
         \<and> nat (sint (word_of_nat m :: 32 word)) = m
         \<and> nat (sint M sdiv 2) = 2 ^ (m - 1)
         \<and> 0 \<le> gmi_index j k b (word_of_nat m) \<and> gmi_index j k b (word_of_nat m) < sint M
         \<and> inj_on (\<lambda>j. gmi_index j k b (word_of_nat m)) {..<2 ^ (m - 1)}
         \<and> (let bi = gmi_index i k b (word_of_nat m);
                 tmp_num = gmi_tmp_num C M s bi l1 l2;
                 tmp_den = gmi_tmp_den C M s k b (word_of_nat m) bi l1 l2
             in gh_exp s l1 l2 (C bi - C bi) = 1
                \<and> 1 \<le> tmp_den \<and> tmp_den \<le> tmp_num \<and> 1 \<le> tmp_num / tmp_den
                \<and> - (w_GH ! l1 * w_GH ! l2 * log 2 (tmp_num / tmp_den)) \<le> 0)"
proof -
  have m30: "m \<le> 30" by (rule power_of_two_int[OF assms(1)])
  let ?ix = "\<lambda>j. BitSubsetIndexer j k + push_bit k b"
  have ix: "gmi_index j k b (word_of_nat m) = int (?ix j)" if "j < 2 ^ (m - 1)" for j
    by (rule gmi_index_eq[OF assms(4) m30 that assms(5)])
  have Mn: "nat (sint M) = 2 ^ m"
    by (simp add: assms(1) nat_power_eq)
  have "int (?ix j) < int (2 ^ m)"
    using symbol_index_less[OF assms(4,7,5)] by (simp only: of_nat_less_iff)
  then have range: "0 \<le> gmi_index j k b (word_of_nat m) \<and> gmi_index j k b (word_of_nat m) < sint M"
    unfolding ix[OF assms(7)] assms(1) by simp
  have inj: "inj_on (\<lambda>j. gmi_index j k b (word_of_nat m)) {..<2 ^ (m - 1)}"
  proof (rule inj_onI)
    fix x y assume "x \<in> {..<(2::nat) ^ (m - 1)}" "y \<in> {..<(2::nat) ^ (m - 1)}"
      and eq: "gmi_index x k b (word_of_nat m) = gmi_index y k b (word_of_nat m)"
    then have "x < 2 ^ (m - 1)" "y < 2 ^ (m - 1)" by simp_all
    with eq have "?ix x = ?ix y"
      by (simp only: ix of_nat_eq_iff)
    then show "x = y"
      by (rule symbol_index_inj[OF assms(5)])
  qed
  define v where "v = ?ix i"
  have bi: "gmi_index i k b (word_of_nat m) = int v"
    unfolding v_def by (rule ix[OF assms(6)])
  define num where "num = gmi_tmp_num C M s (int v) l1 l2"
  define den where "den = gmi_tmp_den C M s k b (word_of_nat m) (int v) l1 l2"
  have num: "num = gmi_numerator (\<lambda>j. C (int j)) (nat (sint M)) s v l1 l2"
    unfolding num_def by (rule gmi_tmp_num_sum)
  have den: "den = gmi_denominator (\<lambda>j. C (int j)) (nat (sint M)) s k b v l1 l2"
    unfolding den_def by (rule gmi_tmp_den_sum[OF assms(1,4,5)])
  have vM: "v < nat (sint M)"
    unfolding v_def Mn by (rule symbol_index_less[OF assms(4,6,5)])
  have vk: "bit v k \<longleftrightarrow> b = 1"
    unfolding v_def by (rule symbol_index_bit_k[OF assms(5)])
  have den1: "1 \<le> den"
    unfolding den by (rule gmi_denominator_ge_1[OF vM vk])
  have dn: "den \<le> num"
    unfolding den num by (rule gmi_denominator_le_numerator)
  have q: "1 \<le> num / den"
    using den1 dn by (simp add: le_divide_eq)
  then have "0 \<le> log 2 (num / den)"
    by simp
  then have "0 \<le> w_GH ! l1 * w_GH ! l2 * log 2 (num / den)"
    by (intro mult_nonneg_nonneg w_GH_nonneg assms(8,9))
  then have tle: "- (w_GH ! l1 * w_GH ! l2 * log 2 (num / den)) \<le> 0"
    by simp
  have one: "gh_exp s l1 l2 (C (int v) - C (int v)) = 1"
    by (simp add: gh_exp_node_term node_term_zero)
  have "nat (sint (word_of_nat m :: 32 word)) = m"
    by (simp add: sint_label_width[OF m30])
  with double_to_int_log2[OF assms(1)] half_power_of_two[OF assms(1,2)] range inj
    one den1 dn q tle
  show ?thesis
    unfolding Let_def bi num_def[symmetric] den_def[symmetric] by blast
qed

theorem gmi_denominator_is_sub_sum_witness:
  "sint (4 :: 32 word) = 2 ^ 2 \<and> (1::nat) \<le> 2 \<and> (0::real) < 1 \<and> (1::nat) < 2 \<and> (1::nat) < 2
   \<and> (1::nat) < 2 ^ (2 - 1) \<and> (0::nat) < 2 ^ (2 - 1) \<and> 3 < N_GH \<and> 4 < N_GH
   \<and> double_to_int (log 2 (real_of_int (sint (4 :: 32 word)))) = word_of_nat 2
   \<and> nat (sint (word_of_nat 2 :: 32 word)) = 2
   \<and> nat (sint (4 :: 32 word) sdiv 2) = 2 ^ (2 - 1)
   \<and> 0 \<le> gmi_index 0 1 1 (word_of_nat 2) \<and> gmi_index 0 1 1 (word_of_nat 2) < sint (4 :: 32 word)
   \<and> inj_on (\<lambda>j. gmi_index j 1 1 (word_of_nat 2)) {..<2 ^ (2 - 1)}
   \<and> (let bi = gmi_index 1 1 1 (word_of_nat 2);
           tmp_num = gmi_tmp_num qpsk 4 1 bi 3 4;
           tmp_den = gmi_tmp_den qpsk 4 1 1 1 (word_of_nat 2) bi 3 4
       in gh_exp 1 3 4 (qpsk bi - qpsk bi) = 1
          \<and> 1 \<le> tmp_den \<and> tmp_den \<le> tmp_num \<and> 1 \<le> tmp_num / tmp_den
          \<and> - (w_GH ! 3 * w_GH ! 4 * log 2 (tmp_num / tmp_den)) \<le> 0)"
proof -
  have h: "sint (4 :: 32 word) = 2 ^ 2" "(1::nat) \<le> 2" "(0::real) < 1" "(1::nat) < 2"
    "(1::nat) < 2 ^ (2 - 1)" "(0::nat) < 2 ^ (2 - 1)" "3 < N_GH" "4 < N_GH"
    by (simp_all add: N_GH_def)
  from gmi_denominator_is_sub_sum[OF h(1,2,3,4,4,5,6,7,8), of qpsk] h
  show ?thesis by (simp add: Let_def)
qed

section \<open>The gateway function\<close>

lemma snr_point_length:
  "length (mi (snr_point C M Es snr i run)) = length (mi run)"
  "length (gmi (snr_point C M Es snr i run)) = length (gmi run)"
  by (simp_all add: snr_point_def Let_def)

lemma snr_point_own_slot:
  assumes "i < length (mi run)" "i < length (gmi run)"
  shows "mi (snr_point C M Es snr i run) ! i = qam_eval_mi C (word_of_nat M) (sqrt Es * 10 powr (- snr (int i) / 20))"
    and "gmi (snr_point C M Es snr i run) ! i = qam_eval_gmi C (word_of_nat M) (sqrt Es * 10 powr (- snr (int i) / 20))"
  using assms by (simp_all add: snr_point_def Let_def)

lemma snr_point_other_slot:
  assumes "j \<noteq> i"
  shows "mi (snr_point C M Es snr i run) ! j = mi run ! j"
    and "gmi (snr_point C M Es snr i run) ! j = gmi run ! j"
  using assms by (simp_all add: snr_point_def Let_def)

lemma snr_point_calls:
  "calls (snr_point C M Es snr i run)
     = calls run @ [Call_qam_eval_mi (sqrt Es * 10 powr (- snr (int i) / 20)),
                    Call_qam_eval_gmi (sqrt Es * 10 powr (- snr (int i) / 20))]"
  by (simp add: snr_point_def Let_def)

lemma snr_point_reads_own_snr:
  assumes "snr (int i) = snr' (int i)"
  shows "snr_point C M Es snr i run = snr_point C M Es snr' i run"
  by (simp add: snr_point_def assms)

lemma omp_parallel_for_snr_points:
  assumes "length (mi run) = N" "length (gmi run) = N" "set sched \<subseteq> {..<N}"
  shows "length (mi (omp_parallel_for sched (snr_point C M Es snr) run)) = N
       \<and> length (gmi (omp_parallel_for sched (snr_point C M Es snr) run)) = N
       \<and> (\<forall>j. mi (omp_parallel_for sched (snr_point C M Es snr) run) ! j
               = (if j \<in> set sched then qam_eval_mi C (word_of_nat M) (sqrt Es * 10 powr (- snr (int j) / 20))
                  else mi run ! j))
       \<and> (\<forall>j. gmi (omp_parallel_for sched (snr_point C M Es snr) run) ! j
               = (if j \<in> set sched then qam_eval_gmi C (word_of_nat M) (sqrt Es * 10 powr (- snr (int j) / 20))
                  else gmi run ! j))
       \<and> calls (omp_parallel_for sched (snr_point C M Es snr) run)
           = calls run @ concat (map (\<lambda>i. [Call_qam_eval_mi (sqrt Es * 10 powr (- snr (int i) / 20)),
                                             Call_qam_eval_gmi (sqrt Es * 10 powr (- snr (int i) / 20))]) sched)"
  using assms
proof (induction sched arbitrary: run)
  case Nil
  then show ?case by (simp add: omp_parallel_for_def)
next
  case (Cons i sched)
  let ?run = "snr_point C M Es snr i run"
  have i: "i < length (mi run)" "i < length (gmi run)"
    using Cons.prems by simp_all
  have len: "length (mi ?run) = N" "length (gmi ?run) = N"
    using Cons.prems by (simp_all add: snr_point_length)
  have sub: "set sched \<subseteq> {..<N}"
    using Cons.prems by simp
  have step: "omp_parallel_for (i # sched) (snr_point C M Es snr) run
                = omp_parallel_for sched (snr_point C M Es snr) ?run"
    by (simp add: omp_parallel_for_def)
  have slot: "mi ?run ! j = (if j = i then qam_eval_mi C (word_of_nat M) (sqrt Es * 10 powr (- snr (int j) / 20))
                             else mi run ! j)"
       "gmi ?run ! j = (if j = i then qam_eval_gmi C (word_of_nat M) (sqrt Es * 10 powr (- snr (int j) / 20))
                             else gmi run ! j)" for j
    using snr_point_own_slot[OF i, of C M Es snr] snr_point_other_slot[of j i C M Es snr run]
    by auto
  show ?case
    unfolding step using Cons.IH[OF len sub] by (simp add: slot snr_point_calls)
qed

lemma schedule_of_upt: "schedule_of N [0..<N]"
  by (auto simp: schedule_of_def)

lemma mexFunction_sched_ok:
  assumes "nrhs = 2" "nlhs \<le> 2" "schedule_of (mxGetM (prhs ! 1)) sched"
  shows "\<exists>out. mexFunction_sched sched nlhs nrhs prhs = Inr out
           \<and> length (mi out) = mxGetM (prhs ! 1) \<and> length (gmi out) = mxGetM (prhs ! 1)
           \<and> (\<forall>i<mxGetM (prhs ! 1).
                 (let C = mxGetComplexDoubles (prhs ! 0);
                      M = word_of_nat (mxGetM (prhs ! 0));
                      sigma = sqrt (symbol_energy C M) * 10 powr (- mxGetPr (prhs ! 1) (int i) / 20)
                  in mi out ! i = qam_eval_mi C M sigma \<and> gmi out ! i = qam_eval_gmi C M sigma))
           \<and> calls out
               = Call_symbol_energy
                 # concat (map (\<lambda>i.
                     let C = mxGetComplexDoubles (prhs ! 0);
                         M = word_of_nat (mxGetM (prhs ! 0));
                         sigma = sqrt (symbol_energy C M) * 10 powr (- mxGetPr (prhs ! 1) (int i) / 20)
                     in [Call_qam_eval_mi sigma, Call_qam_eval_gmi sigma]) sched)"
proof -
  let ?N = "mxGetM (prhs ! 1)"
  let ?run0 = "\<lparr>mi = replicate ?N 0, gmi = replicate ?N 0, calls = [Call_symbol_energy]\<rparr>"
  have sched: "set sched = {..<?N}"
    using assms(3) by (simp add: schedule_of_def)
  have len: "length (mi ?run0) = ?N" "length (gmi ?run0) = ?N"
    by simp_all
  have sub: "set sched \<subseteq> {..<?N}"
    using sched by simp
  show ?thesis
    using omp_parallel_for_snr_points[OF len sub] assms(1,2)
    by (simp add: mexFunction_sched_def Let_def sched)
qed

lemma mexFunction_sched_errors:
  "nrhs \<noteq> 2 \<Longrightarrow> mexFunction_sched sched nlhs nrhs prhs
      = Inl (MexErr ''dsp-library:qam_gmi_mex:nrhs'' ''Two inputs required.'')"
  "nrhs = 2 \<Longrightarrow> 2 < nlhs \<Longrightarrow> mexFunction_sched sched nlhs nrhs prhs
      = Inl (MexErr ''dsp-library:qam_gmi_mex:nlhs'' ''Max two outputs.'')"
  by (simp_all add: mexFunction_sched_def)

lemma nth_eq_map_upt:
  assumes "length xs = N" "\<forall>i<N. xs ! i = f i"
  shows "xs = map f [0..<N]"
  using assms by (intro nth_equalityI) simp_all

lemma mexFunction_sequential_columns:
  assumes "nrhs = 2" "nlhs \<le> 2"
  shows "\<exists>out. mexFunction nlhs nrhs prhs = Inr out
           \<and> length (mi out) = mxGetM (prhs ! 1) \<and> length (gmi out) = mxGetM (prhs ! 1)
           \<and> mi out = map (\<lambda>i. qam_eval_mi (mxGetComplexDoubles (prhs ! 0)) (word_of_nat (mxGetM (prhs ! 0)))
                 (sqrt (symbol_energy (mxGetComplexDoubles (prhs ! 0)) (word_of_nat (mxGetM (prhs ! 0))))
                   * 10 powr (- mxGetPr (prhs ! 1) (int i) / 20))) [0..<mxGetM (prhs ! 1)]
           \<and> gmi out = map (\<lambda>i. qam_eval_gmi (mxGetComplexDoubles (prhs ! 0)) (word_of_nat (mxGetM (prhs ! 0)))
                 (sqrt (symbol_energy (mxGetComplexDoubles (prhs ! 0)) (word_of_nat (mxGetM (prhs ! 0))))
                   * 10 powr (- mxGetPr (prhs ! 1) (int i) / 20))) [0..<mxGetM (prhs ! 1)]"
proof -
  let ?N = "mxGetM (prhs ! 1)"
  obtain out where out: "mexFunction_sched [0..<?N] nlhs nrhs prhs = Inr out"
    and len: "length (mi out) = ?N" "length (gmi out) = ?N"
    and slots: "\<forall>i<?N.
               (let C = mxGetComplexDoubles (prhs ! 0);
                    M = word_of_nat (mxGetM (prhs ! 0));
                    sigma = sqrt (symbol_energy C M) * 10 powr (- mxGetPr (prhs ! 1) (int i) / 20)
                in mi out ! i = qam_eval_mi C M sigma \<and> gmi out ! i = qam_eval_gmi C M sigma)"
    using mexFunction_sched_ok[OF assms schedule_of_upt] by blast
  have "mi out = map (\<lambda>i. qam_eval_mi (mxGetComplexDoubles (prhs ! 0)) (word_of_nat (mxGetM (prhs ! 0)))
               (sqrt (symbol_energy (mxGetComplexDoubles (prhs ! 0)) (word_of_nat (mxGetM (prhs ! 0))))
                 * 10 powr (- mxGetPr (prhs ! 1) (int i) / 20))) [0..<?N]"
    using slots by (intro nth_eq_map_upt[OF len(1)]) (simp add: Let_def)
  moreover have "gmi out = map (\<lambda>i. qam_eval_gmi (mxGetComplexDoubles (prhs ! 0)) (word_of_nat (mxGetM (prhs ! 0)))
               (sqrt (symbol_energy (mxGetComplexDoubles (prhs ! 0)) (word_of_nat (mxGetM (prhs ! 0))))
                 * 10 powr (- mxGetPr (prhs ! 1) (int i) / 20))) [0..<?N]"
    using slots by (intro nth_eq_map_upt[OF len(2)]) (simp add: Let_def)
  ultimately show ?thesis
    using out len by (simp add: mexFunction_def)
qed

subsection \<open>Calls that C defines\<close>

lemma gmi_reads_in_bounds_power_of_two:
  assumes M: "sint (M :: 32 word) = 2 ^ m" and m: "1 \<le> m"
  shows "gmi_reads_in_bounds M"
proof -
  have m30: "m \<le> 30" by (rule power_of_two_int[OF M])
  have half: "nat (sint M sdiv 2) = 2 ^ (m - 1)"
    by (rule half_power_of_two[OF M m])
  have inside: "0 \<le> gmi_index i k b (word_of_nat m) \<and> gmi_index i k b (word_of_nat m) < sint M"
    if "k < m" "b < 2" "i < 2 ^ (m - 1)" for k b i
  proof -
    have "BitSubsetIndexer i k + push_bit k b < 2 ^ m"
      by (rule symbol_index_less[OF that(1) that(3) that(2)])
    then have "int (BitSubsetIndexer i k + push_bit k b) < 2 ^ m"
      by (metis of_nat_less_iff of_nat_numeral of_nat_power)
    then show ?thesis
      unfolding gmi_index_eq[OF that(1) m30 that(3) that(2)] M by simp
  qed
  show ?thesis
    unfolding gmi_reads_in_bounds_def Let_def double_to_int_log2[OF M] sint_label_width[OF m30] half
    by (simp add: list_all_iff inside)
qed

lemma log2_3_floor: "\<lfloor>log 2 (3::real)\<rfloor> = 1"
proof -
  have "log 2 (2::real) \<le> log 2 3" "log 2 (3::real) < log 2 4"
    by simp_all
  moreover have "log 2 (2::real) = 1" "log 2 (4::real) = 2"
    using log_pow_cancel[of 2 2] by simp_all
  ultimately have "1 \<le> log 2 (3::real)" "log 2 (3::real) < 2"
    by simp_all
  then show ?thesis
    by (simp add: floor_eq_iff)
qed

lemma double_to_int_log2_3: "double_to_int (log 2 (real_of_int (sint (3 :: 32 word)))) = 1"
proof -
  have "0 \<le> log 2 (3::real)" by simp
  then show ?thesis
    by (simp add: double_to_int_def log2_3_floor)
qed

lemma gmi_reads_in_bounds_3: "gmi_reads_in_bounds 3"
  unfolding gmi_reads_in_bounds_def Let_def double_to_int_log2_3
  by (simp add: gmi_index_def insert_zero_def signed_divide_int_def upt_rec)

lemma three_not_power_of_two: "\<not> (\<exists>m. sint (3 :: 32 word) = 2 ^ m)"
proof
  assume "\<exists>m. sint (3 :: 32 word) = 2 ^ m"
  then obtain m where m: "(3::int) = 2 ^ m" by auto
  show False
  proof (cases m)
    case 0
    with m show False by simp
  next
    case (Suc n)
    with m have "(3::int) = 2 * 2 ^ n" by simp
    then have "even (3::int)" by (metis dvd_triv_left)
    then show False by simp
  qed
qed

lemma call_defined_three_points:
  "call_defined three_points_args" "call_defined three_zero_points"
  by (simp_all add: call_defined_def three_points_args_def three_zero_points_def gmi_reads_in_bounds_3)

lemma symbol_energy_zero_constellation: "symbol_energy zero_constellation M = 0"
  by (simp add: symbol_energy_sum zero_constellation_def)

lemma symbol_energy_three_points: "symbol_energy three_points 3 = 1"
  by (simp add: symbol_energy_sum three_points_def lessThan_Suc eval_nat_numeral)

lemma symbol_energy_qpsk: "symbol_energy qpsk 4 = 2"
proof -
  have four: "{..<(4::nat)} = {0, 1, 2, 3}"
    by auto
  show ?thesis
    by (simp add: symbol_energy_sum four qpsk_def cmod_power2)
qed

lemma call_defined_qpsk: "call_defined (qpsk_args snr)"
proof -
  have "gmi_reads_in_bounds 4"
    by (rule gmi_reads_in_bounds_power_of_two[of 4 2]) simp_all
  then show ?thesis
    by (simp add: call_defined_def qpsk_args_def)
qed

text \<open>
  C4 as stated fails: the estimators have no error result, and the gateway checks
  the two argument counts and nothing else. The three symbols \<open>1, -1, j\<close> are a
  constellation whose size is not a power of two; the call is defined by C, the
  derived noise level is 1, \<open>qam_eval_gmi\<close> takes the truncated width \<open>m = 1\<close>,
  and the gateway returns both columns, filled by the two estimators. Three
  coinciding symbols at the origin give the noise level \<open>sqrt 0 * 10^0 = 0\<close>; the
  call is defined by C, and the gateway returns two columns of one entry.
\<close>

theorem mexFunction_accepts_three_points:
  "\<not> (\<exists>m. sint (3 :: 32 word) = 2 ^ m)
   \<and> double_to_int (log 2 (real_of_int (sint (3 :: 32 word)))) = 1
   \<and> call_defined three_points_args
   \<and> sqrt (symbol_energy three_points 3) * 10 powr (- zero_snr 0 / 20) = 1
   \<and> (\<exists>out. mexFunction 2 2 three_points_args = Inr out
          \<and> mi out = [qam_eval_mi three_points 3 1] \<and> gmi out = [qam_eval_gmi three_points 3 1])
   \<and> call_defined three_zero_points
   \<and> sqrt (symbol_energy zero_constellation 3) * 10 powr (- zero_snr 0 / 20) = 0
   \<and> (\<exists>out. mexFunction 2 2 three_zero_points = Inr out
          \<and> length (mi out) = 1 \<and> length (gmi out) = 1)"
proof -
  have sigma: "sqrt (symbol_energy three_points 3) * 10 powr (- zero_snr 0 / 20) = 1"
    by (simp add: symbol_energy_three_points zero_snr_def)
  have "\<exists>out. mexFunction 2 2 three_points_args = Inr out
          \<and> mi out = [qam_eval_mi three_points 3 1] \<and> gmi out = [qam_eval_gmi three_points 3 1]"
    using mexFunction_sequential_columns[of 2 2 three_points_args]
    by (auto simp add: three_points_args_def symbol_energy_three_points zero_snr_def)
  moreover have "\<exists>out. mexFunction 2 2 three_zero_points = Inr out
          \<and> length (mi out) = 1 \<and> length (gmi out) = 1"
    using mexFunction_sequential_columns[of 2 2 three_zero_points]
    by (auto simp add: three_zero_points_def)
  ultimately show ?thesis
    using three_not_power_of_two double_to_int_log2_3 call_defined_three_points sigma
    by (simp add: symbol_energy_zero_constellation)
qed

text \<open>
  C4, as the code has it. The gateway fails only on the argument counts, before
  any arithmetic: with the message \<open>Two inputs required.\<close> unless \<open>nrhs = 2\<close>, and
  with \<open>Max two outputs.\<close> when \<open>nlhs > 2\<close>. Every other call that C defines
  returns both output columns of length \<open>N\<close> and no error, whether or not the
  constellation size is a power of two; when the symbol energy is positive, so
  that every derived noise level is, each entry is the value of its estimator at
  the noise level of that SNR value.
\<close>

theorem mexFunction_checks_argument_counts_only:
  "(nrhs \<noteq> 2 \<longrightarrow>
      mexFunction nlhs nrhs prhs = Inl (MexErr ''dsp-library:qam_gmi_mex:nrhs'' ''Two inputs required.''))
   \<and> (nrhs = 2 \<and> 2 < nlhs \<longrightarrow>
      mexFunction nlhs nrhs prhs = Inl (MexErr ''dsp-library:qam_gmi_mex:nlhs'' ''Max two outputs.''))
   \<and> (nrhs = 2 \<and> nlhs \<le> 2 \<and> call_defined prhs \<longrightarrow>
      (let C = mxGetComplexDoubles (prhs ! 0);
           M = word_of_nat (mxGetM (prhs ! 0));
           N = mxGetM (prhs ! 1);
           sigma = (\<lambda>i. sqrt (symbol_energy C M) * 10 powr (- mxGetPr (prhs ! 1) (int i) / 20))
       in \<exists>out. mexFunction nlhs nrhs prhs = Inr out
            \<and> length (mi out) = N \<and> length (gmi out) = N
            \<and> (0 < symbol_energy C M \<longrightarrow>
                  mi out = map (\<lambda>i. qam_eval_mi C M (sigma i)) [0..<N]
                  \<and> gmi out = map (\<lambda>i. qam_eval_gmi C M (sigma i)) [0..<N])))"
proof (intro conjI impI)
  assume "nrhs \<noteq> 2"
  then show "mexFunction nlhs nrhs prhs = Inl (MexErr ''dsp-library:qam_gmi_mex:nrhs'' ''Two inputs required.'')"
    by (simp add: mexFunction_def mexFunction_sched_errors)
next
  assume "nrhs = 2 \<and> 2 < nlhs"
  then show "mexFunction nlhs nrhs prhs = Inl (MexErr ''dsp-library:qam_gmi_mex:nlhs'' ''Max two outputs.'')"
    by (simp add: mexFunction_def mexFunction_sched_errors)
next
  assume "nrhs = 2 \<and> nlhs \<le> 2 \<and> call_defined prhs"
  then have "nrhs = 2" "nlhs \<le> 2" by simp_all
  from mexFunction_sequential_columns[OF this, of prhs]
  show "let C = mxGetComplexDoubles (prhs ! 0);
           M = word_of_nat (mxGetM (prhs ! 0));
           N = mxGetM (prhs ! 1);
           sigma = (\<lambda>i. sqrt (symbol_energy C M) * 10 powr (- mxGetPr (prhs ! 1) (int i) / 20))
       in \<exists>out. mexFunction nlhs nrhs prhs = Inr out
            \<and> length (mi out) = N \<and> length (gmi out) = N
            \<and> (0 < symbol_energy C M \<longrightarrow>
                  mi out = map (\<lambda>i. qam_eval_mi C M (sigma i)) [0..<N]
                  \<and> gmi out = map (\<lambda>i. qam_eval_gmi C M (sigma i)) [0..<N])"
    unfolding Let_def by blast
qed

theorem mexFunction_checks_argument_counts_only_witness:
  "(3::int) \<noteq> 2
   \<and> mexFunction 2 3 three_points_args = Inl (MexErr ''dsp-library:qam_gmi_mex:nrhs'' ''Two inputs required.'')
   \<and> (2::int) = 2 \<and> (2::int) < 3
   \<and> mexFunction 3 2 three_points_args = Inl (MexErr ''dsp-library:qam_gmi_mex:nlhs'' ''Max two outputs.'')
   \<and> (1::int) \<le> 2 \<and> call_defined three_points_args \<and> 0 < symbol_energy three_points 3
   \<and> (\<exists>out. mexFunction 1 2 three_points_args = Inr out
          \<and> length (mi out) = 1 \<and> length (gmi out) = 1
          \<and> mi out = [qam_eval_mi three_points 3 1] \<and> gmi out = [qam_eval_gmi three_points 3 1])"
proof -
  have e1: "mexFunction 2 3 three_points_args = Inl (MexErr ''dsp-library:qam_gmi_mex:nrhs'' ''Two inputs required.'')"
    using mexFunction_checks_argument_counts_only[of 3 2 three_points_args] by simp
  have e2: "mexFunction 3 2 three_points_args = Inl (MexErr ''dsp-library:qam_gmi_mex:nlhs'' ''Max two outputs.'')"
    using mexFunction_checks_argument_counts_only[of 2 3 three_points_args] by simp
  have ok: "\<exists>out. mexFunction 1 2 three_points_args = Inr out
          \<and> length (mi out) = 1 \<and> length (gmi out) = 1
          \<and> mi out = [qam_eval_mi three_points 3 1] \<and> gmi out = [qam_eval_gmi three_points 3 1]"
    using mexFunction_checks_argument_counts_only[of 2 1 three_points_args] call_defined_three_points(1)
    by (simp add: three_points_args_def symbol_energy_three_points zero_snr_def)
  show ?thesis
    using e1 e2 ok call_defined_three_points(1) by (simp add: symbol_energy_three_points)
qed

text \<open>
  C5. In a call that C defines, with a positive symbol energy, the gateway calls
  \<open>symbol_energy\<close> once, before the loop: the first helper call is that one, and
  it is the only one of its kind. Its value is \<open>Es = (1/M) * (sum of |C i|^2)\<close>.
  Whatever the order of the iterations, the iteration \<open>i\<close> then calls the two
  estimators, both with \<open>sigma = sqrt Es * 10^(-snr[i]/20)\<close> for that one value
  \<open>Es\<close>, and the outputs at the index \<open>i\<close> are the values they return.
\<close>

theorem snr_points_share_one_symbol_energy:
  assumes "nrhs = 2" and "nlhs \<le> 2" and "schedule_of (mxGetM (prhs ! 1)) sched"
    and "call_defined prhs"
    and "0 < SymbolEnergyCalculator (\<lambda>j. mxGetComplexDoubles (prhs ! 0) (int j)) (mxGetM (prhs ! 0))"
    and "i < mxGetM (prhs ! 1)"
  shows "\<exists>out. mexFunction_sched sched nlhs nrhs prhs = Inr out
           \<and> (let C = mxGetComplexDoubles (prhs ! 0);
                   M = mxGetM (prhs ! 0);
                   Es = SymbolEnergyCalculator (\<lambda>j. C (int j)) M;
                   sigma = (\<lambda>i. sqrt Es * 10 powr (- mxGetPr (prhs ! 1) (int i) / 20))
               in symbol_energy C (word_of_nat M) = Es
                  \<and> calls out = Call_symbol_energy
                       # concat (map (\<lambda>i. [Call_qam_eval_mi (sigma i), Call_qam_eval_gmi (sigma i)]) sched)
                  \<and> length (filter is_Call_symbol_energy (calls out)) = 1
                  \<and> mi out ! i = qam_eval_mi C (word_of_nat M) (sigma i)
                  \<and> gmi out ! i = qam_eval_gmi C (word_of_nat M) (sigma i))"
proof -
  let ?C = "mxGetComplexDoubles (prhs ! 0)"
  let ?M = "mxGetM (prhs ! 0)"
  let ?Es = "SymbolEnergyCalculator (\<lambda>j. ?C (int j)) ?M"
  let ?sigma = "\<lambda>i. sqrt ?Es * 10 powr (- mxGetPr (prhs ! 1) (int i) / 20)"
  have M: "1 \<le> ?M" "?M < 2 ^ 31"
    using assms(4) by (simp_all add: call_defined_def)
  have sM: "sint (word_of_nat ?M :: 32 word) = int ?M"
    by (rule sint_word_of_nat32[OF M(2)])
  have Es: "symbol_energy ?C (word_of_nat ?M) = ?Es"
    using symbol_energy_spec[of "word_of_nat ?M" ?C] M(1) by (simp add: sM)
  obtain out where out: "mexFunction_sched sched nlhs nrhs prhs = Inr out"
    and slots: "\<forall>i<mxGetM (prhs ! 1).
                 (let C = mxGetComplexDoubles (prhs ! 0);
                      M = word_of_nat (mxGetM (prhs ! 0));
                      sigma = sqrt (symbol_energy C M) * 10 powr (- mxGetPr (prhs ! 1) (int i) / 20)
                  in mi out ! i = qam_eval_mi C M sigma \<and> gmi out ! i = qam_eval_gmi C M sigma)"
    and log: "calls out
               = Call_symbol_energy
                 # concat (map (\<lambda>i.
                     let C = mxGetComplexDoubles (prhs ! 0);
                         M = word_of_nat (mxGetM (prhs ! 0));
                         sigma = sqrt (symbol_energy C M) * 10 powr (- mxGetPr (prhs ! 1) (int i) / 20)
                     in [Call_qam_eval_mi sigma, Call_qam_eval_gmi sigma]) sched)"
    using mexFunction_sched_ok[OF assms(1,2,3)] by blast
  have log': "calls out = Call_symbol_energy
                # concat (map (\<lambda>i. [Call_qam_eval_mi (?sigma i), Call_qam_eval_gmi (?sigma i)]) sched)"
    using log unfolding Let_def Es .
  have "filter is_Call_symbol_energy
          (concat (map (\<lambda>i. [Call_qam_eval_mi (?sigma i), Call_qam_eval_gmi (?sigma i)]) sched)) = []"
    by (induction sched) simp_all
  then have once: "length (filter is_Call_symbol_energy (calls out)) = 1"
    unfolding log' by simp
  have slot: "mi out ! i = qam_eval_mi ?C (word_of_nat ?M) (?sigma i)
              \<and> gmi out ! i = qam_eval_gmi ?C (word_of_nat ?M) (?sigma i)"
    using slots assms(6) unfolding Let_def Es by blast
  show ?thesis
    unfolding Let_def using out Es log' once slot by blast
qed

theorem snr_points_share_one_symbol_energy_witness:
  "(2::int) = 2 \<and> (1::int) \<le> 2 \<and> schedule_of (mxGetM (qpsk_args snr_20_0_10 ! 1)) [2, 0, 1]
   \<and> call_defined (qpsk_args snr_20_0_10)
   \<and> 0 < SymbolEnergyCalculator (\<lambda>j. qpsk (int j)) 4
   \<and> 0 < mxGetM (qpsk_args snr_20_0_10 ! 1)
   \<and> (\<exists>out. mexFunction_sched [2, 0, 1] 1 2 (qpsk_args snr_20_0_10) = Inr out
           \<and> symbol_energy qpsk 4 = SymbolEnergyCalculator (\<lambda>j. qpsk (int j)) 4
           \<and> SymbolEnergyCalculator (\<lambda>j. qpsk (int j)) 4 = 2
           \<and> calls out = [Call_symbol_energy,
                Call_qam_eval_mi (sqrt 2 * 10 powr (- 10 / 20)), Call_qam_eval_gmi (sqrt 2 * 10 powr (- 10 / 20)),
                Call_qam_eval_mi (sqrt 2 * 10 powr (- 20 / 20)), Call_qam_eval_gmi (sqrt 2 * 10 powr (- 20 / 20)),
                Call_qam_eval_mi (sqrt 2 * 10 powr (- 0 / 20)), Call_qam_eval_gmi (sqrt 2 * 10 powr (- 0 / 20))]
           \<and> length (filter is_Call_symbol_energy (calls out)) = 1
           \<and> mi out ! 0 = qam_eval_mi qpsk 4 (sqrt 2 * 10 powr (- 20 / 20))
           \<and> gmi out ! 0 = qam_eval_gmi qpsk 4 (sqrt 2 * 10 powr (- 20 / 20)))"
proof -
  have N: "mxGetM (qpsk_args snr_20_0_10 ! 1) = 3"
    by (simp add: qpsk_args_def)
  have three: "{..<(3::nat)} = {0, 1, 2}"
    by auto
  have s: "schedule_of (mxGetM (qpsk_args snr_20_0_10 ! 1)) [2, 0, 1]"
    unfolding N by (auto simp: schedule_of_def three)
  have i: "0 < mxGetM (qpsk_args snr_20_0_10 ! 1)"
    unfolding N by simp
  have two: "(2::int) = 2" "(1::int) \<le> 2"
    by simp_all
  have Es: "SymbolEnergyCalculator (\<lambda>j. qpsk (int j)) 4 = 2"
    using symbol_energy_spec[of 4 qpsk] by (simp add: symbol_energy_qpsk)
  have pos: "0 < SymbolEnergyCalculator
               (\<lambda>j. mxGetComplexDoubles (qpsk_args snr_20_0_10 ! 0) (int j)) (mxGetM (qpsk_args snr_20_0_10 ! 0))"
    by (simp add: qpsk_args_def Es)
  from snr_points_share_one_symbol_energy[OF two s call_defined_qpsk pos i] s i
    call_defined_qpsk[of snr_20_0_10]
  show ?thesis
    by (simp add: qpsk_args_def snr_20_0_10_def Es)
qed

text \<open>
  C7. Take two calls that C defines, with the same constellation of positive
  symbol energy, whose SNR columns agree at the index \<open>j\<close>; the other SNR values,
  the lengths of the columns and the orders of the iterations may differ. In both
  calls the slot \<open>j\<close> of each output holds the value of its estimator at the noise
  level of the SNR value \<open>j\<close>, so the outputs at \<open>j\<close> are the same, and the symbol
  energy is the same. An iteration reads of the SNR column the value of its own
  index only, stores the results of its two calls in the slot of its own index,
  and leaves every other slot \<open>i\<close> of both outputs as it was.
\<close>

theorem snr_points_are_independent:
  assumes "nrhs = 2" and "nlhs \<le> 2"
    and "prhs ! 0 = prhs' ! 0"
    and "schedule_of (mxGetM (prhs ! 1)) sched" and "schedule_of (mxGetM (prhs' ! 1)) sched'"
    and "call_defined prhs" and "call_defined prhs'"
    and "0 < symbol_energy (mxGetComplexDoubles (prhs ! 0)) (word_of_nat (mxGetM (prhs ! 0)))"
    and "j < mxGetM (prhs ! 1)" and "j < mxGetM (prhs' ! 1)"
    and "mxGetPr (prhs ! 1) (int j) = mxGetPr (prhs' ! 1) (int j)"
    and "i \<noteq> j" and "j < length (mi run)" and "j < length (gmi run)"
  shows "(\<exists>out out'. mexFunction_sched sched nlhs nrhs prhs = Inr out
            \<and> mexFunction_sched sched' nlhs nrhs prhs' = Inr out'
            \<and> (let C = mxGetComplexDoubles (prhs ! 0);
                    M = word_of_nat (mxGetM (prhs ! 0));
                    sigma = sqrt (symbol_energy C M) * 10 powr (- mxGetPr (prhs ! 1) (int j) / 20)
                in mi out ! j = qam_eval_mi C M sigma \<and> gmi out ! j = qam_eval_gmi C M sigma
                   \<and> mi out' ! j = qam_eval_mi C M sigma \<and> gmi out' ! j = qam_eval_gmi C M sigma)
            \<and> mi out ! j = mi out' ! j \<and> gmi out ! j = gmi out' ! j)
         \<and> symbol_energy (mxGetComplexDoubles (prhs ! 0)) (word_of_nat (mxGetM (prhs ! 0)))
             = symbol_energy (mxGetComplexDoubles (prhs' ! 0)) (word_of_nat (mxGetM (prhs' ! 0)))
         \<and> snr_point C M Es (mxGetPr (prhs ! 1)) j run = snr_point C M Es (mxGetPr (prhs' ! 1)) j run
         \<and> mi (snr_point C M Es snr j run) ! j
             = qam_eval_mi C (word_of_nat M) (sqrt Es * 10 powr (- snr (int j) / 20))
         \<and> gmi (snr_point C M Es snr j run) ! j
             = qam_eval_gmi C (word_of_nat M) (sqrt Es * 10 powr (- snr (int j) / 20))
         \<and> mi (snr_point C M Es snr j run) ! i = mi run ! i
         \<and> gmi (snr_point C M Es snr j run) ! i = gmi run ! i"
proof -
  obtain out where out: "mexFunction_sched sched nlhs nrhs prhs = Inr out"
    and oj: "let C = mxGetComplexDoubles (prhs ! 0);
                 M = word_of_nat (mxGetM (prhs ! 0));
                 sigma = sqrt (symbol_energy C M) * 10 powr (- mxGetPr (prhs ! 1) (int j) / 20)
             in mi out ! j = qam_eval_mi C M sigma \<and> gmi out ! j = qam_eval_gmi C M sigma"
    using mexFunction_sched_ok[OF assms(1,2,4)] assms(9) by blast
  obtain out' where out': "mexFunction_sched sched' nlhs nrhs prhs' = Inr out'"
    and oj': "let C = mxGetComplexDoubles (prhs' ! 0);
                 M = word_of_nat (mxGetM (prhs' ! 0));
                 sigma = sqrt (symbol_energy C M) * 10 powr (- mxGetPr (prhs' ! 1) (int j) / 20)
             in mi out' ! j = qam_eval_mi C M sigma \<and> gmi out' ! j = qam_eval_gmi C M sigma"
    using mexFunction_sched_ok[OF assms(1,2,5)] assms(10) by blast
  have runs: "\<exists>out out'. mexFunction_sched sched nlhs nrhs prhs = Inr out
            \<and> mexFunction_sched sched' nlhs nrhs prhs' = Inr out'
            \<and> (let C = mxGetComplexDoubles (prhs ! 0);
                    M = word_of_nat (mxGetM (prhs ! 0));
                    sigma = sqrt (symbol_energy C M) * 10 powr (- mxGetPr (prhs ! 1) (int j) / 20)
                in mi out ! j = qam_eval_mi C M sigma \<and> gmi out ! j = qam_eval_gmi C M sigma
                   \<and> mi out' ! j = qam_eval_mi C M sigma \<and> gmi out' ! j = qam_eval_gmi C M sigma)
            \<and> mi out ! j = mi out' ! j \<and> gmi out ! j = gmi out' ! j"
    using out out' oj oj' unfolding Let_def assms(3) assms(11) by simp
  have own: "snr_point C M Es (mxGetPr (prhs ! 1)) j run = snr_point C M Es (mxGetPr (prhs' ! 1)) j run"
    using assms(11) by (rule snr_point_reads_own_snr[of "mxGetPr (prhs ! 1)" j "mxGetPr (prhs' ! 1)" C M Es run])
  show ?thesis
    using runs own snr_point_own_slot[OF assms(13,14), of C M Es snr]
      snr_point_other_slot[OF assms(12), of C M Es snr run]
    by (simp add: assms(3))
qed

theorem snr_points_are_independent_witness:
  "(2::int) = 2 \<and> (2::int) \<le> 2
   \<and> qpsk_args snr_20_0_10 ! 0 = qpsk_args snr_5_0_7 ! 0
   \<and> schedule_of (mxGetM (qpsk_args snr_20_0_10 ! 1)) [2, 0, 1]
   \<and> schedule_of (mxGetM (qpsk_args snr_5_0_7 ! 1)) [0, 1, 2]
   \<and> call_defined (qpsk_args snr_20_0_10) \<and> call_defined (qpsk_args snr_5_0_7)
   \<and> 0 < symbol_energy qpsk 4
   \<and> 1 < mxGetM (qpsk_args snr_20_0_10 ! 1) \<and> 1 < mxGetM (qpsk_args snr_5_0_7 ! 1)
   \<and> mxGetPr (qpsk_args snr_20_0_10 ! 1) (int 1) = mxGetPr (qpsk_args snr_5_0_7 ! 1) (int 1)
   \<and> (2::nat) \<noteq> 1
   \<and> (\<exists>out out'. mexFunction_sched [2, 0, 1] 2 2 (qpsk_args snr_20_0_10) = Inr out
          \<and> mexFunction_sched [0, 1, 2] 2 2 (qpsk_args snr_5_0_7) = Inr out'
          \<and> mi out ! 1 = qam_eval_mi qpsk 4 (sqrt 2) \<and> gmi out ! 1 = qam_eval_gmi qpsk 4 (sqrt 2)
          \<and> mi out' ! 1 = qam_eval_mi qpsk 4 (sqrt 2) \<and> gmi out' ! 1 = qam_eval_gmi qpsk 4 (sqrt 2)
          \<and> mi out ! 1 = mi out' ! 1 \<and> gmi out ! 1 = gmi out' ! 1)
   \<and> snr_point qpsk 4 2 snr_20_0_10 1 \<lparr>mi = [3, 4, 5], gmi = [6, 7, 8], calls = []\<rparr>
        = snr_point qpsk 4 2 snr_5_0_7 1 \<lparr>mi = [3, 4, 5], gmi = [6, 7, 8], calls = []\<rparr>
   \<and> mi (snr_point qpsk 4 2 snr_5_0_7 1 \<lparr>mi = [3, 4, 5], gmi = [6, 7, 8], calls = []\<rparr>) ! 1
        = qam_eval_mi qpsk 4 (sqrt 2)
   \<and> gmi (snr_point qpsk 4 2 snr_5_0_7 1 \<lparr>mi = [3, 4, 5], gmi = [6, 7, 8], calls = []\<rparr>) ! 1
        = qam_eval_gmi qpsk 4 (sqrt 2)
   \<and> mi (snr_point qpsk 4 2 snr_5_0_7 1 \<lparr>mi = [3, 4, 5], gmi = [6, 7, 8], calls = []\<rparr>) ! 2 = 5
   \<and> gmi (snr_point qpsk 4 2 snr_5_0_7 1 \<lparr>mi = [3, 4, 5], gmi = [6, 7, 8], calls = []\<rparr>) ! 2 = 8"
proof -
  have a: "qpsk_args snr_20_0_10 ! 0 = qpsk_args snr_5_0_7 ! 0"
    by (simp add: qpsk_args_def)
  have N: "mxGetM (qpsk_args snr_20_0_10 ! 1) = 3" "mxGetM (qpsk_args snr_5_0_7 ! 1) = 3"
    by (simp_all add: qpsk_args_def)
  have three: "{..<(3::nat)} = {0, 1, 2}"
    by auto
  have s: "schedule_of (mxGetM (qpsk_args snr_20_0_10 ! 1)) [2, 0, 1]"
      "schedule_of (mxGetM (qpsk_args snr_5_0_7 ! 1)) [0, 1, 2]"
    unfolding N by (auto simp: schedule_of_def three)
  have j: "1 < mxGetM (qpsk_args snr_20_0_10 ! 1)" "1 < mxGetM (qpsk_args snr_5_0_7 ! 1)"
    unfolding N by simp_all
  have v: "mxGetPr (qpsk_args snr_20_0_10 ! 1) (int 1) = mxGetPr (qpsk_args snr_5_0_7 ! 1) (int 1)"
    by (simp add: qpsk_args_def snr_20_0_10_def snr_5_0_7_def)
  have two: "(2::int) = 2" "(2::int) \<le> 2"
    by simp_all
  have frame: "(2::nat) \<noteq> 1" by simp
  have pos: "0 < symbol_energy (mxGetComplexDoubles (qpsk_args snr_20_0_10 ! 0))
                   (word_of_nat (mxGetM (qpsk_args snr_20_0_10 ! 0)))"
    by (simp add: qpsk_args_def symbol_energy_qpsk)
  have len: "1 < length (mi \<lparr>mi = [3, 4, 5::real], gmi = [6, 7, 8::real], calls = []\<rparr>)"
      "1 < length (gmi \<lparr>mi = [3, 4, 5::real], gmi = [6, 7, 8::real], calls = []\<rparr>)"
    by simp_all
  from snr_points_are_independent[OF two a s call_defined_qpsk call_defined_qpsk pos j v frame len,
      of qpsk 4 2 snr_5_0_7]
  show ?thesis
    using a s j v call_defined_qpsk[of snr_20_0_10] call_defined_qpsk[of snr_5_0_7]
    by (simp add: qpsk_args_def snr_5_0_7_def snr_20_0_10_def symbol_energy_qpsk Let_def)
qed

section \<open>Soundness of the certified enclosures\<close>













section \<open>The two estimators on the two clusters\<close>

























section \<open>Bounds of the terms at the ten nodes\<close>












































































































































































section \<open>Bounds of the two estimators\<close>










end
